theory Spec2Isabelle
  imports Main "HOL-Library.Sublist" "HOL-Library.AList"
begin

section \<open>Paths and the preserve rules\<close>

text \<open>
  The deployer of \<^verbatim>\<open>FtpDeploy\<close> works on relative paths, which are JavaScript strings.
  They are modelled as \<^typ>\<open>string\<close>; the separator characters are ASCII, so a
  comparison or a prefix test on the bytes agrees with the one on UTF-16 code units.
\<close>

type_synonym path = string

definition HASH_FILE_NAME :: string where
  "HASH_FILE_NAME = ''.deploy_ftp_hash.json''"

text \<open>\<^verbatim>\<open>s.replace(/\\/g, '/')\<close>: every backslash becomes a forward slash.\<close>

definition replace_backslashes :: "string \<Rightarrow> string" where
  "replace_backslashes s = map (\<lambda>c. if c = CHR 0x5C then CHR ''/'' else c) s"

text \<open>\<^verbatim>\<open>s.endsWith('/') ? s.slice(0, -1) : s\<close>\<close>

definition cleanPreservePath :: "string \<Rightarrow> string" where
  "cleanPreservePath normalizedPreserve =
     (if suffix ''/'' normalizedPreserve
      then take (length normalizedPreserve - 1) normalizedPreserve
      else normalizedPreserve)"

text \<open>The callback given to \<^verbatim>\<open>preserve.some\<close> in \<^verbatim>\<open>shouldPreserve\<close>.\<close>

definition preserve_matches :: "path \<Rightarrow> string \<Rightarrow> bool" where
  "preserve_matches filePath preservePath =
     (let normalizedFile = replace_backslashes filePath;
          normalizedPreserve = replace_backslashes preservePath;
          cleanPath = cleanPreservePath normalizedPreserve
      in normalizedFile = cleanPath \<or> prefix (cleanPath @ ''/'') normalizedFile)"

definition shouldPreserve :: "string list \<Rightarrow> path \<Rightarrow> bool" where
  "shouldPreserve preserve filePath =
     (if length preserve = 0 then False
      else list_ex (preserve_matches filePath) preserve)"

text \<open>
  The rule as the specification words it, written without the functions above: the
  separators of the path are normalised to forward slashes, a preserve entry has its
  trailing slash stripped, and the two are compared for equality or as a directory
  prefix.
\<close>

fun spec_forward_slashes :: "string \<Rightarrow> string" where
  "spec_forward_slashes [] = []"
| "spec_forward_slashes (c # cs) =
     (if c = CHR 0x5C then CHR ''/'' # spec_forward_slashes cs
      else c # spec_forward_slashes cs)"

definition spec_strip_trailing_slash :: "string \<Rightarrow> string" where
  "spec_strip_trailing_slash e = (if e \<noteq> [] \<and> last e = CHR ''/'' then butlast e else e)"

definition spec_preserved :: "string set \<Rightarrow> path \<Rightarrow> bool" where
  "spec_preserved preserveSet p =
     (\<exists>e \<in> preserveSet.
        spec_forward_slashes p = spec_strip_trailing_slash e \<or>
        prefix (spec_strip_trailing_slash e @ ''/'') (spec_forward_slashes p))"

section \<open>Errors\<close>

text \<open>
  A thrown JavaScript error: its \<^verbatim>\<open>name\<close>, its \<^verbatim>\<open>code\<close> (empty when it has none) and
  its \<^verbatim>\<open>message\<close>.
\<close>

record err =
  ename :: string
  ecode :: string
  emessage :: string

text \<open>The template \<^verbatim>\<open>`${err}`\<close>, that is \<^verbatim>\<open>Error.prototype.toString\<close>.\<close>

definition err_to_string :: "err \<Rightarrow> string" where
  "err_to_string e =
     (if ename e = [] then emessage e
      else if emessage e = [] then ename e
      else ename e @ '': '' @ emessage e)"

text \<open>The classification computed in the \<^verbatim>\<open>catch\<close> of \<^verbatim>\<open>executeWithRetry\<close>.\<close>

definition isConnectionError :: "err \<Rightarrow> bool" where
  "isConnectionError e \<longleftrightarrow>
     ecode e = ''ECONNRESET'' \<or> ecode e = ''ENOTFOUND'' \<or> ecode e = ''ETIMEDOUT'' \<or>
     ecode e = ''ECONNREFUSED'' \<or> sublist ''connection'' (emessage e)"

text \<open>The decimal text of a number, as a template literal renders an integer.\<close>

definition digit_char :: "nat \<Rightarrow> char" where
  "digit_char d = char_of (d + 48)"

function decimal_digits :: "nat \<Rightarrow> string \<Rightarrow> string" where
  "decimal_digits n acc =
     (let acc' = digit_char (n mod 10) # acc
      in if n < 10 then acc' else decimal_digits (n div 10) acc')"
  by pat_completeness auto
termination
  by (relation "measure fst") auto

definition number_to_string :: "int \<Rightarrow> string" where
  "number_to_string i =
     (if i < 0 then CHR ''-'' # decimal_digits (nat (- i)) [] else decimal_digits (nat i) [])"

text \<open>\<^verbatim>\<open>new Error(`Operation failed after ${retries} attempts`)\<close>\<close>

definition generic_error :: "int \<Rightarrow> err" where
  "generic_error retries =
     \<lparr>ename = ''Error'', ecode = [],
      emessage = ''Operation failed after '' @ number_to_string retries @ '' attempts''\<rparr>"

text \<open>The error of a server that refuses a command (no such file, name in use).\<close>

definition server_error :: "string \<Rightarrow> err" where
  "server_error msg = \<lparr>ename = ''FTPError'', ecode = ''550'', emessage = msg\<rparr>"

section \<open>Configuration\<close>

text \<open>
  The fields of \<^verbatim>\<open>FtpDeployConfig\<close> that the engine reads, after the constructor has
  filled in the defaults. The local directory is represented by the result of its scan,
  and the retry delay only makes the run wait.
\<close>

record config =
  remote_dir :: path
  clean_remote_files :: bool
  clear_destination :: bool
  dry_run :: bool
  preserve :: "string list"
  reconnect :: bool
  max_retries :: int

text \<open>The default of the parameter \<^verbatim>\<open>retries\<close>: \<^verbatim>\<open>this.config.max_retries || 3\<close>.\<close>

definition default_retries :: "'a config_scheme \<Rightarrow> int" where
  "default_retries cfg = (if max_retries cfg = 0 then 3 else max_retries cfg)"

section \<open>POSIX path functions of the runtime\<close>

text \<open>
  \<^verbatim>\<open>path.posix\<close> belongs to the runtime, not to the repository; the functions below follow
  its documented algorithm, for the calls the deployer makes.
\<close>

fun split_on :: "char \<Rightarrow> string \<Rightarrow> string list" where
  "split_on c [] = [[]]"
| "split_on c (x # xs) =
     (if x = c then [] # split_on c xs
      else (case split_on c xs of [] \<Rightarrow> [[x]] | r # rs \<Rightarrow> (x # r) # rs))"

fun join_slash :: "string list \<Rightarrow> string" where
  "join_slash [] = []"
| "join_slash [s] = s"
| "join_slash (s # t # ss) = s @ ''/'' @ join_slash (t # ss)"

text \<open>
  \<^verbatim>\<open>normalizeString\<close>: the accumulator holds the segments kept so far, last one first.
\<close>

fun normalize_segments :: "bool \<Rightarrow> string list \<Rightarrow> string list \<Rightarrow> string list" where
  "normalize_segments allowAbove acc [] = rev acc"
| "normalize_segments allowAbove acc (seg # segs) =
     (if seg = [] \<or> seg = ''.'' then normalize_segments allowAbove acc segs
      else if seg = ''..'' then
        (case acc of
           [] \<Rightarrow> normalize_segments allowAbove (if allowAbove then [''..''] else []) segs
         | a # as \<Rightarrow>
             if a = ''..'' then normalize_segments allowAbove (''..'' # a # as) segs
             else normalize_segments allowAbove as segs)
      else normalize_segments allowAbove (seg # acc) segs)"

definition posix_normalize :: "path \<Rightarrow> path" where
  "posix_normalize p =
     (if p = [] then ''.''
      else
        let isAbsolute = (hd p = CHR ''/'');
            trailingSeparator = (last p = CHR ''/'');
            s = join_slash (normalize_segments (\<not> isAbsolute) [] (split_on CHR ''/'' p))
        in if s = [] then (if isAbsolute then ''/'' else if trailingSeparator then ''./'' else ''.'')
           else (if isAbsolute then ''/'' else []) @ s @ (if trailingSeparator then ''/'' else []))"

definition posix_join :: "path list \<Rightarrow> path" where
  "posix_join parts =
     (let used = filter (\<lambda>a. a \<noteq> []) parts
      in if used = [] then ''.'' else posix_normalize (join_slash used))"

definition posix_dirname :: "path \<Rightarrow> path" where
  "posix_dirname p =
     (if p = [] then ''.''
      else
        let hasRoot = (hd p = CHR ''/'');
            body = rev (dropWhile (\<lambda>c. c = CHR ''/'') (rev (tl p)))
        in if CHR ''/'' \<notin> set body then (if hasRoot then ''/'' else ''.'')
           else
             let keep = rev (tl (dropWhile (\<lambda>c. c \<noteq> CHR ''/'') (rev body)))
             in if hasRoot \<and> keep = [] then ''//'' else hd p # keep)"

text \<open>
  The manifest path of the constructor, and the remote path of a file with relative path
  \<open>rel\<close>: \<^verbatim>\<open>path.posix.join(this.config.remote_dir, rel)\<close>.
\<close>

definition remoteHashFile :: "'a config_scheme \<Rightarrow> path" where
  "remoteHashFile cfg = posix_join [remote_dir cfg, HASH_FILE_NAME]"

definition remote_path :: "'a config_scheme \<Rightarrow> path \<Rightarrow> path" where
  "remote_path cfg rel = posix_join [remote_dir cfg, rel]"

text \<open>
  The path, relative to the remote root, of the entry \<open>name\<close> of the directory with
  relative path \<open>rel\<close>; the root has the relative path \<^verbatim>\<open>''\<close>. It stands for
  \<^verbatim>\<open>path.posix.relative(remote_dir, path.posix.join(remoteDir, name))\<close>, for a normalised
  \<^verbatim>\<open>remote_dir\<close> and entry names that are single path segments.
\<close>

definition rel_join :: "path \<Rightarrow> string \<Rightarrow> path" where
  "rel_join rel name = (if rel = [] then name else rel @ ''/'' @ name)"

section \<open>Hash records\<close>

text \<open>
  \<^verbatim>\<open>localHashes\<close> and \<^verbatim>\<open>remoteHashes\<close> are plain JavaScript objects created by \<^verbatim>\<open>{}\<close>:
  own properties with string keys, and \<^verbatim>\<open>Object.prototype\<close> behind them. A value read
  from such an object is \<^verbatim>\<open>undefined\<close>, a string, a member inherited from
  \<^verbatim>\<open>Object.prototype\<close> (named by its key: a function, or the prototype object itself
  for \<^verbatim>\<open>__proto__\<close>), or a value of a JSON text that is not a string (a number, a
  boolean, \<^verbatim>\<open>null\<close>, an array or an object), of which the engine observes the
  truthiness only.
\<close>

datatype jsvalue = Undefined | Str string | Builtin string | Other bool

text \<open>The own properties, in insertion order.\<close>

type_synonym jsobject = "(string \<times> jsvalue) list"

text \<open>The property names of \<^verbatim>\<open>Object.prototype\<close>.\<close>

definition object_prototype_names :: "string list" where
  "object_prototype_names =
     [''constructor'', ''__defineGetter__'', ''__defineSetter__'', ''hasOwnProperty'',
      ''__lookupGetter__'', ''__lookupSetter__'', ''isPrototypeOf'', ''propertyIsEnumerable'',
      ''toString'', ''valueOf'', ''__proto__'', ''toLocaleString'']"

text \<open>\<^verbatim>\<open>obj[key]\<close>: the own property, else the inherited member, else \<^verbatim>\<open>undefined\<close>.\<close>

definition js_get :: "jsobject \<Rightarrow> string \<Rightarrow> jsvalue" where
  "js_get obj key =
     (case map_of obj key of
        Some v \<Rightarrow> v
      | None \<Rightarrow> if key \<in> set object_prototype_names then Builtin key else Undefined)"

text \<open>
  \<^verbatim>\<open>obj[key] = v\<close>. The key \<^verbatim>\<open>__proto__\<close> of an object without such an own property
  reaches the setter of \<^verbatim>\<open>Object.prototype\<close>, which ignores a value that is neither an
  object nor \<^verbatim>\<open>null\<close> and leaves the prototype as it is when given the prototype itself.
\<close>

definition js_set :: "string \<Rightarrow> jsvalue \<Rightarrow> jsobject \<Rightarrow> jsobject" where
  "js_set key v obj =
     (if key = ''__proto__'' \<and> map_of obj key = None then obj else AList.update key v obj)"

text \<open>\<^verbatim>\<open>delete obj[key]\<close> removes the own property.\<close>

definition js_delete :: "string \<Rightarrow> jsobject \<Rightarrow> jsobject" where
  "js_delete key obj = AList.delete key obj"

text \<open>\<^verbatim>\<open>!v\<close> is \<^verbatim>\<open>false\<close> exactly for a truthy value.\<close>

fun truthy :: "jsvalue \<Rightarrow> bool" where
  "truthy Undefined = False"
| "truthy (Str s) = (s \<noteq> [])"
| "truthy (Builtin name) = True"
| "truthy (Other t) = t"

text \<open>
  \<^verbatim>\<open>u === v\<close>, for a value \<open>u\<close> of \<^verbatim>\<open>remoteHashes\<close> and a value \<open>v\<close> of \<^verbatim>\<open>localHashes\<close>.
  The engine stores only strings in \<^verbatim>\<open>localHashes\<close>, so \<open>v\<close> is a string, an inherited
  member or \<^verbatim>\<open>undefined\<close>, and a JSON value that is not a string equals none of them.
\<close>

fun is_other :: "jsvalue \<Rightarrow> bool" where
  "is_other (Other t) = True"
| "is_other v = False"

definition strict_equals :: "jsvalue \<Rightarrow> jsvalue \<Rightarrow> bool" where
  "strict_equals u v \<longleftrightarrow> u = v \<and> \<not> is_other u"

text \<open>
  The members that \<^verbatim>\<open>JSON.stringify\<close> writes: it skips a property whose value is
  \<^verbatim>\<open>undefined\<close> or a function.
\<close>

fun json_member :: "string \<times> jsvalue \<Rightarrow> bool" where
  "json_member (key, Str s) = True"
| "json_member (key, Other t) = True"
| "json_member (key, v) = False"

section \<open>The remote server and the transport client\<close>

text \<open>
  The remote root is a tree of directory entries, as \<^verbatim>\<open>client.list\<close> reports them:
  regular files, directories with their content, and entries that are neither (links).
  The manifest file of the remote root is kept apart from the tree, with its text
  already classified: empty; a text that \<^verbatim>\<open>JSON.parse\<close> accepts, given by the own
  enumerable properties of the value it parses to, in order (the members of an object,
  the indices of an array or a string, none for a number, a boolean or \<^verbatim>\<open>null\<close>);
  or a text that \<^verbatim>\<open>JSON.parse\<close> rejects. A member named \<^verbatim>\<open>__proto__\<close> is listed when
  its value is a string, a number or a boolean; a text in which it holds an object or
  \<^verbatim>\<open>null\<close>, which \<^verbatim>\<open>Object.assign\<close> would install as the prototype of
  \<^verbatim>\<open>remoteHashes\<close>, is not represented.
\<close>

datatype entry = RFile string | RDir string "entry list" | ROther string

fun entry_name :: "entry \<Rightarrow> string" where
  "entry_name (RFile n) = n"
| "entry_name (RDir n sub) = n"
| "entry_name (ROther n) = n"

type_synonym manifest = jsobject

datatype hashfile = HashText_empty | HashText_json manifest | HashText_invalid

datatype call =
    Access | Close | List path | Size path | DownloadTo path
  | UploadFrom path | EnsureDir path | Remove path | RemoveDir path

text \<open>
  The world outside the engine. Every call of the transport client is recorded in
  \<open>calls\<close>; the call number \<open>k\<close> (counted from 0) raises \<open>e\<close> when
  \<open>faults k = Some e\<close>, whatever the reason (network, permissions, server state), and
  succeeds otherwise. \<open>tmp_write_error\<close> is the outcome of writing the local staging
  file of the manifest.
\<close>

record world =
  faults :: "nat \<Rightarrow> err option"
  calls :: "call list"
  tree :: "entry list"
  hashfile :: "hashfile option"
  connected :: bool
  tmp_write_error :: "err option"

definition issue :: "call \<Rightarrow> 'a world_scheme \<Rightarrow> err option \<times> 'a world_scheme" where
  "issue c w = (faults w (length (calls w)), w\<lparr>calls := calls w @ [c]\<rparr>)"

subsection \<open>What a successful command does to the remote tree\<close>

fun has_dir :: "string \<Rightarrow> entry list \<Rightarrow> bool" where
  "has_dir d [] = False"
| "has_dir d (RDir n sub # es) = (n = d \<or> has_dir d es)"
| "has_dir d (e # es) = has_dir d es"

fun in_dirs :: "string \<Rightarrow> (entry list \<Rightarrow> entry list) \<Rightarrow> entry list \<Rightarrow> entry list" where
  "in_dirs d f [] = []"
| "in_dirs d f (RDir n sub # es) = (if n = d then RDir n (f sub) else RDir n sub) # in_dirs d f es"
| "in_dirs d f (e # es) = e # in_dirs d f es"

fun tree_ensure_dir :: "string list \<Rightarrow> entry list \<Rightarrow> entry list" where
  "tree_ensure_dir [] es = es"
| "tree_ensure_dir (d # p) es =
     (if has_dir d es then in_dirs d (\<lambda>sub. tree_ensure_dir p sub) es
      else es @ [RDir d (tree_ensure_dir p [])])"

fun tree_put_file :: "string list \<Rightarrow> entry list \<Rightarrow> entry list" where
  "tree_put_file [] es = es"
| "tree_put_file [n] es = (if RFile n \<in> set es then es else es @ [RFile n])"
| "tree_put_file (d # n # p) es =
     (if has_dir d es then in_dirs d (\<lambda>sub. tree_put_file (n # p) sub) es
      else es @ [RDir d (tree_put_file (n # p) [])])"

fun tree_remove_file :: "string list \<Rightarrow> entry list \<Rightarrow> entry list" where
  "tree_remove_file [] es = es"
| "tree_remove_file [n] es = filter (\<lambda>e. e \<noteq> RFile n) es"
| "tree_remove_file (d # n # p) es = in_dirs d (\<lambda>sub. tree_remove_file (n # p) sub) es"

subsection \<open>The client's methods\<close>

text \<open>
  Each method issues its call; when the call does not raise, the remote state changes
  as the command says. The methods that name a file take its path relative to the
  remote root and call the client with \<open>remote_path cfg rel\<close>, as the engine does.
\<close>

definition client_access :: "'a world_scheme \<Rightarrow> (err + unit) \<times> 'a world_scheme" where
  "client_access w =
     (case issue Access w of
        (Some e, w1) \<Rightarrow> (Inl e, w1)
      | (None, w1) \<Rightarrow> (Inr (), w1\<lparr>connected := True\<rparr>))"

text \<open>\<^verbatim>\<open>client.close()\<close> does not raise.\<close>

definition client_close :: "'a world_scheme \<Rightarrow> 'a world_scheme" where
  "client_close w = w\<lparr>calls := calls w @ [Close], connected := False\<rparr>"

definition client_size_hashfile ::
  "'c config_scheme \<Rightarrow> 'a world_scheme \<Rightarrow> (err + unit) \<times> 'a world_scheme" where
  "client_size_hashfile cfg w =
     (case issue (Size (remoteHashFile cfg)) w of
        (Some e, w1) \<Rightarrow> (Inl e, w1)
      | (None, w1) \<Rightarrow>
          (case hashfile w1 of
             None \<Rightarrow> (Inl (server_error ''File not found''), w1)
           | Some t \<Rightarrow> (Inr (), w1)))"

definition client_downloadTo_hashfile ::
  "'c config_scheme \<Rightarrow> 'a world_scheme \<Rightarrow> (err + hashfile) \<times> 'a world_scheme" where
  "client_downloadTo_hashfile cfg w =
     (case issue (DownloadTo (remoteHashFile cfg)) w of
        (Some e, w1) \<Rightarrow> (Inl e, w1)
      | (None, w1) \<Rightarrow>
          (case hashfile w1 of
             None \<Rightarrow> (Inl (server_error ''File not found''), w1)
           | Some t \<Rightarrow> (Inr t, w1)))"

text \<open>The upload of the staging file, whose text is \<open>text\<close>, to the manifest's path.\<close>

definition client_uploadFrom_hashfile ::
  "'c config_scheme \<Rightarrow> hashfile \<Rightarrow> 'a world_scheme \<Rightarrow> (err + unit) \<times> 'a world_scheme" where
  "client_uploadFrom_hashfile cfg text w =
     (case issue (UploadFrom (remoteHashFile cfg)) w of
        (Some e, w1) \<Rightarrow> (Inl e, w1)
      | (None, w1) \<Rightarrow> (Inr (), w1\<lparr>hashfile := Some text\<rparr>))"

definition client_ensureDir ::
  "'c config_scheme \<Rightarrow> path \<Rightarrow> 'a world_scheme \<Rightarrow> (err + unit) \<times> 'a world_scheme" where
  "client_ensureDir cfg rel w =
     (case issue (EnsureDir (posix_dirname (remote_path cfg rel))) w of
        (Some e, w1) \<Rightarrow> (Inl e, w1)
      | (None, w1) \<Rightarrow>
          (Inr (), w1\<lparr>tree := tree_ensure_dir (butlast (split_on CHR ''/'' rel)) (tree w1)\<rparr>))"

text \<open>
  A deployed file whose remote path is the manifest's path replaces the manifest's text
  by the text of that file, which is not known here.
\<close>

definition client_uploadFrom ::
  "'c config_scheme \<Rightarrow> path \<Rightarrow> 'a world_scheme \<Rightarrow> (err + unit) \<times> 'a world_scheme" where
  "client_uploadFrom cfg rel w =
     (case issue (UploadFrom (remote_path cfg rel)) w of
        (Some e, w1) \<Rightarrow> (Inl e, w1)
      | (None, w1) \<Rightarrow>
          (Inr (),
           if rel = HASH_FILE_NAME then w1\<lparr>hashfile := Some HashText_invalid\<rparr>
           else w1\<lparr>tree := tree_put_file (split_on CHR ''/'' rel) (tree w1)\<rparr>))"

definition client_remove ::
  "'c config_scheme \<Rightarrow> path \<Rightarrow> 'a world_scheme \<Rightarrow> (err + unit) \<times> 'a world_scheme" where
  "client_remove cfg rel w =
     (case issue (Remove (remote_path cfg rel)) w of
        (Some e, w1) \<Rightarrow> (Inl e, w1)
      | (None, w1) \<Rightarrow>
          (Inr (), w1\<lparr>tree := tree_remove_file (split_on CHR ''/'' rel) (tree w1)\<rparr>))"

section \<open>Reconnection and retry\<close>

text \<open>
  \<^verbatim>\<open>reconnect\<close>: the old client is closed, a new one opens the session; a failure is
  logged and raised again.
\<close>

definition reconnect_client :: "'a world_scheme \<Rightarrow> (err + unit) \<times> 'a world_scheme" where
  "reconnect_client w = client_access (client_close w)"

text \<open>
  \<^verbatim>\<open>executeWithRetry\<close>: the \<^verbatim>\<open>for\<close> loop from \<open>attempt\<close> on, and the \<^verbatim>\<open>throw\<close> after it.
  The operation is a function of the world that returns its value or the error it raises.
\<close>

function executeWithRetry_from ::
  "'c config_scheme \<Rightarrow> ('a world_scheme \<Rightarrow> (err + 'b) \<times> 'a world_scheme) \<Rightarrow> int \<Rightarrow> int \<Rightarrow>
   'a world_scheme \<Rightarrow> (err + 'b) \<times> 'a world_scheme" where
  "executeWithRetry_from cfg operation retries attempt w =
     (if attempt \<le> retries then
        (case operation w of
           (Inr v, w1) \<Rightarrow> (Inr v, w1)
         | (Inl e, w1) \<Rightarrow>
             if isConnectionError e \<and> reconnect cfg \<and> attempt < retries then
               (case reconnect_client w1 of
                  (Inl reconnectErr, w2) \<Rightarrow>
                    if attempt = retries then (Inl e, w2)
                    else executeWithRetry_from cfg operation retries (attempt + 1) w2
                | (Inr u, w2) \<Rightarrow> executeWithRetry_from cfg operation retries (attempt + 1) w2)
             else (Inl e, w1))
      else (Inl (generic_error retries), w))"
  by pat_completeness auto
termination
  by (relation "measure (\<lambda>(cfg, operation, retries, attempt, w). nat (retries + 1 - attempt))") auto

definition executeWithRetry ::
  "'c config_scheme \<Rightarrow> ('a world_scheme \<Rightarrow> (err + 'b) \<times> 'a world_scheme) \<Rightarrow> int \<Rightarrow>
   'a world_scheme \<Rightarrow> (err + 'b) \<times> 'a world_scheme" where
  "executeWithRetry cfg operation retries w = executeWithRetry_from cfg operation retries 1 w"

text \<open>
  One failed attempt that is retried: the operation, then the reconnection; the world
  after both.
\<close>

definition retry_round ::
  "('a world_scheme \<Rightarrow> (err + 'b) \<times> 'a world_scheme) \<Rightarrow> 'a world_scheme \<Rightarrow> 'a world_scheme" where
  "retry_round operation w = snd (reconnect_client (snd (operation w)))"

section \<open>Concrete inputs\<close>

definition quiet_world :: world where
  "quiet_world = \<lparr>faults = (\<lambda>k. None), calls = [], tree = [], hashfile = None,
                   connected = False, tmp_write_error = None\<rparr>"

definition reset_error :: err where
  "reset_error = \<lparr>ename = ''Error'', ecode = ''ECONNRESET'', emessage = ''read ECONNRESET''\<rparr>"

definition plain_config :: config where
  "plain_config = \<lparr>remote_dir = ''/public_html'', clean_remote_files = False,
     clear_destination = False, dry_run = False, preserve = [], reconnect = True,
     max_retries = 3\<rparr>"

section \<open>The deployer\<close>

text \<open>
  The state of one \<^verbatim>\<open>FtpDeploy\<close> object together with the world it acts on: the four
  lists of \<^verbatim>\<open>this.stats\<close> and the object \<^verbatim>\<open>remoteHashes\<close> that \<^verbatim>\<open>deploy\<close> mutates.
\<close>

record deployer = world +
  uploaded :: "string list"
  removed :: "string list"
  unchanged :: "string list"
  errors :: "string list"
  remoteHashes :: manifest

text \<open>The constructor: empty statistics.\<close>

definition new_deployer :: "world \<Rightarrow> deployer" where
  "new_deployer w =
     world.extend w
       \<lparr>uploaded = [], removed = [], unchanged = [], errors = [], remoteHashes = []\<rparr>"

subsection \<open>Remote scan\<close>

text \<open>
  \<^verbatim>\<open>getRemoteFiles\<close>, for the directory with relative path \<open>rel\<close> whose content is
  \<open>items\<close>: the listing may raise, which ends the scan of this directory with no file.
\<close>

fun getRemoteFiles ::
    "'c config_scheme \<Rightarrow> path \<Rightarrow> entry list \<Rightarrow> 'a world_scheme \<Rightarrow> path list \<times> 'a world_scheme"
  and getRemoteFiles_items ::
    "'c config_scheme \<Rightarrow> path \<Rightarrow> entry list \<Rightarrow> 'a world_scheme \<Rightarrow> path list \<times> 'a world_scheme"
where
  "getRemoteFiles cfg rel items w =
     (case issue (List (remote_path cfg rel)) w of
        (Some e, w1) \<Rightarrow> ([], w1)
      | (None, w1) \<Rightarrow> getRemoteFiles_items cfg rel items w1)"
| "getRemoteFiles_items cfg rel [] w = ([], w)"
| "getRemoteFiles_items cfg rel (RDir n sub # items) w =
     (if n = ''.'' \<or> n = ''..'' then getRemoteFiles_items cfg rel items w
      else
        (case getRemoteFiles cfg (rel_join rel n) sub w of
           (subFiles, w1) \<Rightarrow>
             (case getRemoteFiles_items cfg rel items w1 of
                (files, w2) \<Rightarrow> (subFiles @ files, w2))))"
| "getRemoteFiles_items cfg rel (RFile n # items) w =
     (if n = ''.'' \<or> n = ''..'' then getRemoteFiles_items cfg rel items w
      else if n \<noteq> HASH_FILE_NAME then
        (case getRemoteFiles_items cfg rel items w of
           (files, w1) \<Rightarrow> (rel_join rel n # files, w1))
      else getRemoteFiles_items cfg rel items w)"
| "getRemoteFiles_items cfg rel (ROther n # items) w = getRemoteFiles_items cfg rel items w"

definition scanRemote :: "'c config_scheme \<Rightarrow> 'a world_scheme \<Rightarrow> path list \<times> 'a world_scheme" where
  "scanRemote cfg w = getRemoteFiles cfg [] (tree w) w"

subsection \<open>Removal of empty directories\<close>

text \<open>
  \<^verbatim>\<open>removeEmptyDirectories\<close>, for the directory with relative path \<open>rel\<close> and content
  \<open>items\<close>. The result is the content left in the directory, or \<open>None\<close> when the
  directory itself was removed. The loop over the sub-directories visits the entries
  in listing order and leaves the others untouched.
\<close>

definition hasContent :: "entry list \<Rightarrow> bool" where
  "hasContent updatedList =
     list_ex (\<lambda>item. entry_name item \<noteq> ''.'' \<and> entry_name item \<noteq> ''..''
                      \<and> entry_name item \<noteq> HASH_FILE_NAME) updatedList"

fun removeEmptyDirectories_in ::
    "'c config_scheme \<Rightarrow> path \<Rightarrow> bool \<Rightarrow> entry list \<Rightarrow> 'a world_scheme \<Rightarrow>
     entry list option \<times> 'a world_scheme"
  and removeEmptyDirectories_each ::
    "'c config_scheme \<Rightarrow> path \<Rightarrow> entry list \<Rightarrow> 'a world_scheme \<Rightarrow> entry list \<times> 'a world_scheme"
where
  "removeEmptyDirectories_in cfg rel preserveRoot items w =
     (case issue (List (remote_path cfg rel)) w of
        (Some e, w1) \<Rightarrow> (Some items, w1)
      | (None, w1) \<Rightarrow>
          (case removeEmptyDirectories_each cfg rel items w1 of
             (updatedList, w2) \<Rightarrow>
               (case issue (List (remote_path cfg rel)) w2 of
                  (Some e, w3) \<Rightarrow> (Some updatedList, w3)
                | (None, w3) \<Rightarrow>
                    if \<not> hasContent updatedList \<and> \<not> preserveRoot then
                      (if \<not> shouldPreserve (preserve cfg) rel then
                         (if dry_run cfg then (Some updatedList, w3)
                          else
                            (case issue (RemoveDir (remote_path cfg rel)) w3 of
                               (Some e, w4) \<Rightarrow> (Some updatedList, w4)
                             | (None, w4) \<Rightarrow> (None, w4)))
                       else (Some updatedList, w3))
                    else (Some updatedList, w3))))"
| "removeEmptyDirectories_each cfg rel [] w = ([], w)"
| "removeEmptyDirectories_each cfg rel (RDir n sub # items) w =
     (if n = ''.'' \<or> n = ''..'' \<or> shouldPreserve (preserve cfg) (rel_join rel n) then
        (case removeEmptyDirectories_each cfg rel items w of
           (rest, w1) \<Rightarrow> (RDir n sub # rest, w1))
      else
        (case removeEmptyDirectories_in cfg (rel_join rel n) False sub w of
           (left, w1) \<Rightarrow>
             (case removeEmptyDirectories_each cfg rel items w1 of
                (rest, w2) \<Rightarrow>
                  ((case left of None \<Rightarrow> rest | Some sub' \<Rightarrow> RDir n sub' # rest), w2))))"
| "removeEmptyDirectories_each cfg rel (RFile n # items) w =
     (case removeEmptyDirectories_each cfg rel items w of
        (rest, w1) \<Rightarrow> (RFile n # rest, w1))"
| "removeEmptyDirectories_each cfg rel (ROther n # items) w =
     (case removeEmptyDirectories_each cfg rel items w of
        (rest, w1) \<Rightarrow> (ROther n # rest, w1))"

text \<open>The call on the remote root, which is never removed itself.\<close>

definition removeEmptyDirectories :: "'c config_scheme \<Rightarrow> 'a world_scheme \<Rightarrow> 'a world_scheme" where
  "removeEmptyDirectories cfg w =
     (case removeEmptyDirectories_in cfg [] True (tree w) w of
        (None, w1) \<Rightarrow> w1
      | (Some items, w1) \<Rightarrow> w1\<lparr>tree := items\<rparr>)"

subsection \<open>Clearing the destination\<close>

definition push_error :: "string \<Rightarrow> deployer \<Rightarrow> deployer" where
  "push_error msg s = s\<lparr>errors := errors s @ [msg]\<rparr>"

text \<open>The body of the loop of \<^verbatim>\<open>clearDestination\<close>.\<close>

definition clearFile :: "config \<Rightarrow> path \<Rightarrow> deployer \<Rightarrow> deployer" where
  "clearFile cfg file s =
     (if dry_run cfg then s\<lparr>removed := removed s @ [file]\<rparr>
      else
        (case client_remove cfg file s of
           (Inr u, s1) \<Rightarrow> s1\<lparr>removed := removed s1 @ [file]\<rparr>
         | (Inl e, s1) \<Rightarrow>
             push_error (''Failed to clear '' @ file @ '': '' @ err_to_string e) s1))"

definition clearDestination :: "config \<Rightarrow> deployer \<Rightarrow> deployer" where
  "clearDestination cfg s =
     (case scanRemote cfg s of
        (remoteFiles, s1) \<Rightarrow>
          removeEmptyDirectories cfg (fold (clearFile cfg) remoteFiles s1))"

subsection \<open>The manifest\<close>

definition remoteFileExists :: "'c config_scheme \<Rightarrow> 'a world_scheme \<Rightarrow> bool \<times> 'a world_scheme" where
  "remoteFileExists cfg w =
     (case client_size_hashfile cfg w of
        (Inr u, w1) \<Rightarrow> (True, w1)
      | (Inl e, w1) \<Rightarrow> (False, w1))"

text \<open>
  What \<^verbatim>\<open>Object.assign(remoteHashes, JSON.parse(hashStr))\<close> leaves in the empty object,
  guarded by \<^verbatim>\<open>if (hashStr)\<close>: every own enumerable property of the parsed value is
  assigned in order; a text that does not parse raises, which is caught.
\<close>

fun parsed_hashes :: "hashfile \<Rightarrow> manifest" where
  "parsed_hashes HashText_empty = []"
| "parsed_hashes (HashText_json members) = fold (\<lambda>(key, v). js_set key v) members []"
| "parsed_hashes HashText_invalid = []"

definition loadRemoteHashes :: "'c config_scheme \<Rightarrow> 'a world_scheme \<Rightarrow> manifest \<times> 'a world_scheme" where
  "loadRemoteHashes cfg w =
     (case remoteFileExists cfg w of
        (True, w1) \<Rightarrow>
          (case executeWithRetry cfg (client_downloadTo_hashfile cfg) (default_retries cfg) w1 of
             (Inr text, w2) \<Rightarrow> (parsed_hashes text, w2)
           | (Inl e, w2) \<Rightarrow> ([], w2))
      | (False, w1) \<Rightarrow> ([], w1))"

text \<open>The text \<^verbatim>\<open>JSON.stringify(remoteHashes, null, 2)\<close>.\<close>

definition json_stringify :: "manifest \<Rightarrow> hashfile" where
  "json_stringify hashes = HashText_json (filter json_member hashes)"

definition saveRemoteHashes ::
  "'c config_scheme \<Rightarrow> manifest \<Rightarrow> 'a world_scheme \<Rightarrow> (err + unit) \<times> 'a world_scheme" where
  "saveRemoteHashes cfg hashes w =
     (case tmp_write_error w of
        Some e \<Rightarrow> (Inl e, w)
      | None \<Rightarrow>
          executeWithRetry cfg (client_uploadFrom_hashfile cfg (json_stringify hashes))
            (default_retries cfg) w)"

subsection \<open>Local scan\<close>

text \<open>
  The local scan yields, in scan order, the relative path of every local file with the
  digest \<^verbatim>\<open>calcHash\<close> computes for it. \<^verbatim>\<open>localHashes\<close> is filled in that order.
\<close>

definition make_localHashes :: "(path \<times> string) list \<Rightarrow> jsobject" where
  "make_localHashes localFiles = fold (\<lambda>(p, h). js_set p (Str h)) localFiles []"

subsection \<open>Upload phase\<close>

text \<open>
  The body of the loop over the local files; \<^verbatim>\<open>localHash\<close> is
  \<open>js_get localHashes relativePath\<close>.
\<close>

definition processLocalFile :: "config \<Rightarrow> jsobject \<Rightarrow> path \<Rightarrow> deployer \<Rightarrow> deployer" where
  "processLocalFile cfg localHashes relativePath s =
     (if strict_equals (js_get (remoteHashes s) relativePath) (js_get localHashes relativePath) then
        s\<lparr>unchanged := unchanged s @ [relativePath]\<rparr>
      else if dry_run cfg then
        s\<lparr>uploaded := uploaded s @ [relativePath],
          remoteHashes := js_set relativePath (js_get localHashes relativePath) (remoteHashes s)\<rparr>
      else
        (case client_ensureDir cfg relativePath s of
           (Inl e, s1) \<Rightarrow>
             push_error (''Failed to upload '' @ relativePath @ '': '' @ err_to_string e) s1
         | (Inr u, s1) \<Rightarrow>
             (case client_uploadFrom cfg relativePath s1 of
                (Inl e, s2) \<Rightarrow>
                  push_error (''Failed to upload '' @ relativePath @ '': '' @ err_to_string e) s2
              | (Inr u, s2) \<Rightarrow>
                  s2\<lparr>uploaded := uploaded s2 @ [relativePath],
                     remoteHashes :=
                       js_set relativePath (js_get localHashes relativePath) (remoteHashes s2)\<rparr>)))"

definition uploadPhase :: "config \<Rightarrow> (path \<times> string) list \<Rightarrow> deployer \<Rightarrow> deployer" where
  "uploadPhase cfg localFiles s =
     fold (processLocalFile cfg (make_localHashes localFiles)) (map fst localFiles) s"

text \<open>
  The state of the loop when the turn of \<open>relativePath\<close> comes: the files listed before
  it have been processed.
\<close>

definition uploadTurn :: "config \<Rightarrow> (path \<times> string) list \<Rightarrow> path \<Rightarrow> deployer \<Rightarrow> deployer" where
  "uploadTurn cfg localFiles relativePath s =
     fold (processLocalFile cfg (make_localHashes localFiles))
       (takeWhile (\<lambda>q. q \<noteq> relativePath) (map fst localFiles)) s"

subsection \<open>Clean phase\<close>

definition orphanedFiles :: "jsobject \<Rightarrow> path list \<Rightarrow> path list" where
  "orphanedFiles localHashes remoteFiles =
     filter (\<lambda>remotePath. \<not> truthy (js_get localHashes remotePath)) remoteFiles"

definition filesToRemove :: "config \<Rightarrow> jsobject \<Rightarrow> path list \<Rightarrow> path list" where
  "filesToRemove cfg localHashes remoteFiles =
     filter (\<lambda>remotePath. \<not> shouldPreserve (preserve cfg) remotePath)
       (orphanedFiles localHashes remoteFiles)"

definition preservedFiles :: "config \<Rightarrow> jsobject \<Rightarrow> path list \<Rightarrow> path list" where
  "preservedFiles cfg localHashes remoteFiles =
     filter (\<lambda>remotePath. shouldPreserve (preserve cfg) remotePath)
       (orphanedFiles localHashes remoteFiles)"

text \<open>The callback of \<^verbatim>\<open>preservedFiles.forEach\<close>.\<close>

definition keepPreserved :: "path \<Rightarrow> deployer \<Rightarrow> deployer" where
  "keepPreserved file s =
     (if \<not> truthy (js_get (remoteHashes s) file)
      then s\<lparr>remoteHashes := js_set file (Str ''preserved'') (remoteHashes s)\<rparr>
      else s)"

text \<open>The body of the loop over \<^verbatim>\<open>filesToRemove\<close>.\<close>

definition removeOrphan :: "config \<Rightarrow> path \<Rightarrow> deployer \<Rightarrow> deployer" where
  "removeOrphan cfg fileToRemove s =
     (if dry_run cfg then
        s\<lparr>removed := removed s @ [fileToRemove],
          remoteHashes := js_delete fileToRemove (remoteHashes s)\<rparr>
      else
        (case executeWithRetry cfg (client_remove cfg fileToRemove) (default_retries cfg) s of
           (Inr u, s1) \<Rightarrow>
             s1\<lparr>removed := removed s1 @ [fileToRemove],
                remoteHashes := js_delete fileToRemove (remoteHashes s1)\<rparr>
         | (Inl e, s1) \<Rightarrow>
             push_error (''Failed to remove '' @ fileToRemove @ '': '' @ err_to_string e) s1))"

definition cleanPhase :: "config \<Rightarrow> jsobject \<Rightarrow> path list \<Rightarrow> deployer \<Rightarrow> deployer" where
  "cleanPhase cfg localHashes remoteFiles s =
     (let toRemove = filesToRemove cfg localHashes remoteFiles;
          s1 = fold keepPreserved (preservedFiles cfg localHashes remoteFiles) s;
          s2 = fold (removeOrphan cfg) toRemove s1
      in if toRemove \<noteq> [] then removeEmptyDirectories cfg s2 else s2)"

subsection \<open>The main method\<close>

text \<open>
  The remote scan of \<^verbatim>\<open>deploy\<close>, made only in clean mode without clear-destination;
  otherwise \<^verbatim>\<open>remoteFiles\<close> stays undefined.
\<close>

definition scanRemoteIfClean :: "config \<Rightarrow> deployer \<Rightarrow> path list option \<times> deployer" where
  "scanRemoteIfClean cfg s =
     (if clean_remote_files cfg \<and> \<not> clear_destination cfg
      then (case scanRemote cfg s of (remoteFiles, s') \<Rightarrow> (Some remoteFiles, s'))
      else (None, s))"

text \<open>
  From the local hashes to the clean phase: the remote scan, the loop over the local
  files, and the cleaning, guarded as in the source.
\<close>

definition syncFiles :: "config \<Rightarrow> (path \<times> string) list \<Rightarrow> deployer \<Rightarrow> deployer" where
  "syncFiles cfg localFiles s =
     (case scanRemoteIfClean cfg s of
        (remoteFiles, s1) \<Rightarrow>
          let s2 = uploadPhase cfg localFiles s1
          in (case remoteFiles of
                Some files \<Rightarrow>
                  if clean_remote_files cfg \<and> \<not> clear_destination cfg
                  then cleanPhase cfg (make_localHashes localFiles) files s2 else s2
              | None \<Rightarrow> s2))"

text \<open>The update of the remote hash file, skipped in a dry run.\<close>

definition updateRemoteHashFile :: "config \<Rightarrow> deployer \<Rightarrow> err option \<times> deployer" where
  "updateRemoteHashFile cfg s =
     (if dry_run cfg then (None, s)
      else
        (case saveRemoteHashes cfg (remoteHashes s) s of
           (Inl e, s1) \<Rightarrow> (Some e, s1)
         | (Inr u, s1) \<Rightarrow> (None, s1)))"

text \<open>
  The \<^verbatim>\<open>try\<close> block of \<^verbatim>\<open>deploy\<close>. The result is the error that leaves the block, if
  any, with the state reached. \<open>scan\<close> is the outcome of the local scan: the files
  with their digests, or the error that \<^verbatim>\<open>getLocalFiles\<close> or \<^verbatim>\<open>calcHash\<close> raises.
\<close>

definition deploy_try :: "config \<Rightarrow> (err + (path \<times> string) list) \<Rightarrow> deployer \<Rightarrow> err option \<times> deployer" where
  "deploy_try cfg scan s =
     (case client_access s of
        (Inl e, s1) \<Rightarrow> (Some e, s1)
      | (Inr u, s1) \<Rightarrow>
          (case loadRemoteHashes cfg
                  (if clear_destination cfg then clearDestination cfg s1 else s1) of
             (hashes, s2) \<Rightarrow>
               (case scan of
                  Inl e \<Rightarrow> (Some e, s2\<lparr>remoteHashes := hashes\<rparr>)
                | Inr localFiles \<Rightarrow>
                    updateRemoteHashFile cfg
                      (syncFiles cfg localFiles (s2\<lparr>remoteHashes := hashes\<rparr>)))))"

text \<open>
  \<^verbatim>\<open>deploy\<close> on a new \<^verbatim>\<open>FtpDeploy\<close> object: the \<^verbatim>\<open>try\<close> block, the \<^verbatim>\<open>catch\<close> that records
  the critical error, and the \<^verbatim>\<open>finally\<close> that closes the client. The statistics
  returned are the fields \<open>uploaded\<close>, \<open>removed\<close>, \<open>unchanged\<close> and \<open>errors\<close>
  of the result.
\<close>

definition deploy :: "config \<Rightarrow> (err + (path \<times> string) list) \<Rightarrow> world \<Rightarrow> deployer" where
  "deploy cfg scan w =
     (case deploy_try cfg scan (new_deployer w) of
        (None, s) \<Rightarrow> client_close s
      | (Some e, s) \<Rightarrow> client_close (push_error (''Critical error: '' @ err_to_string e) s))"

text \<open>A world whose first transport call is reset, with a manifest on the server.\<close>

definition flaky_world :: world where
  "flaky_world = \<lparr>faults = (\<lambda>k. if k = 0 then Some reset_error else None), calls = [],
      tree = [RFile ''a.txt''], hashfile = Some (HashText_json [(''a.txt'', Str ''h1'')]),
      connected = True, tmp_write_error = None\<rparr>"

section \<open>Well-formed names\<close>

text \<open>
  A path segment that \<^verbatim>\<open>path.posix.normalize\<close> leaves alone, and a remote tree whose
  entry names contain no separator (a server lists the names of one directory).
\<close>

definition plain_segment :: "string \<Rightarrow> bool" where
  "plain_segment seg \<longleftrightarrow> seg \<noteq> [] \<and> CHR ''/'' \<notin> set seg \<and> seg \<noteq> ''.'' \<and> seg \<noteq> ''..''"

fun slashfree :: "entry \<Rightarrow> bool" where
  "slashfree (RFile n) = (CHR ''/'' \<notin> set n)"
| "slashfree (RDir n sub) = (CHR ''/'' \<notin> set n \<and> list_all slashfree sub)"
| "slashfree (ROther n) = (CHR ''/'' \<notin> set n)"

text \<open>A server with three deployed files, a manifest for two of them, and no failure.\<close>

definition sample_world :: world where
  "sample_world = \<lparr>faults = (\<lambda>k. None), calls = [],
      tree = [RFile ''a.txt'', RFile ''old.txt'',
              RDir ''sub'' [RFile ''x.bin'', RFile ''.deploy_ftp_hash.json'']],
      hashfile = Some (HashText_json [(''a.txt'', Str ''h1''), (''old.txt'', Str ''h2'')]),
      connected = False, tmp_write_error = None\<rparr>"

text \<open>The same server behind a connection that resets every transport call.\<close>

definition unreachable_world :: world where
  "unreachable_world = sample_world\<lparr>faults := (\<lambda>k. Some reset_error)\<rparr>"



section \<open>Frames\<close>

text \<open>What no transport call changes: the faults to come, the local disk, the engine.\<close>

definition frame :: "'a world_scheme \<Rightarrow> 'a world_scheme \<Rightarrow> bool" where
  "frame w w' \<longleftrightarrow>
     faults w' = faults w \<and> tmp_write_error w' = tmp_write_error w \<and> world.more w' = world.more w"

text \<open>
  A failure that no retry would cure: the server refuses the command. It is not
  connection-classified.
\<close>

definition denied :: err where
  "denied = server_error ''Permission denied''"

text \<open>A run whose fourth transport call, the upload of the only file, is refused.\<close>

definition denied_upload_world :: world where
  "denied_upload_world = quiet_world\<lparr>faults := (\<lambda>k. if k = 3 then Some denied else None)\<rparr>"

text \<open>The sample server at the start of the upload loop, manifest loaded.\<close>

definition loaded_sample :: deployer where
  "loaded_sample = (new_deployer sample_world)\<lparr>remoteHashes := [(''a.txt'', Str ''h1''), (''old.txt'', Str ''h2'')]\<rparr>"

text \<open>The same state, in a world whose second transport call from here on is refused.\<close>

definition denied_sample :: deployer where
  "denied_sample = loaded_sample\<lparr>faults := (\<lambda>k. if k = 1 then Some denied else None)\<rparr>"

text \<open>Clean mode with the directory \<^verbatim>\<open>sub\<close> preserved.\<close>

definition preserving_config :: config where
  "preserving_config = plain_config\<lparr>clean_remote_files := True, preserve := [''sub/'']\<rparr>"

section \<open>Reliable transport\<close>

text \<open>A world in which no transport call raises.\<close>

definition no_faults :: "'a world_scheme \<Rightarrow> bool" where
  "no_faults w \<longleftrightarrow> faults w = (\<lambda>k. None)"

text \<open>What \<^verbatim>\<open>getRemoteFiles\<close> returns for a directory when no listing fails.\<close>

fun remote_listing :: "path \<Rightarrow> entry list \<Rightarrow> path list" where
  "remote_listing rel [] = []"
| "remote_listing rel (RDir n sub # items) =
     (if n = ''.'' \<or> n = ''..'' then remote_listing rel items
      else remote_listing (rel_join rel n) sub @ remote_listing rel items)"
| "remote_listing rel (RFile n # items) =
     (if n = ''.'' \<or> n = ''..'' \<or> n = HASH_FILE_NAME then remote_listing rel items
      else rel_join rel n # remote_listing rel items)"
| "remote_listing rel (ROther n # items) = remote_listing rel items"

text \<open>A step that leaves the remote files and the manifest file as they are.\<close>

definition mutating :: "call \<Rightarrow> bool" where
  "mutating c =
     (case c of UploadFrom p \<Rightarrow> True | EnsureDir p \<Rightarrow> True | Remove p \<Rightarrow> True
      | RemoveDir p \<Rightarrow> True | _ \<Rightarrow> False)"

definition read_only :: "'a world_scheme \<Rightarrow> 'a world_scheme \<Rightarrow> bool" where
  "read_only w w' \<longleftrightarrow>
     frame w w' \<and> tree w' = tree w \<and> hashfile w' = hashfile w
     \<and> (\<exists>cs. calls w' = calls w @ cs \<and> list_all (\<lambda>c. \<not> mutating c) cs)"

text \<open>The manifest that a reliable load returns.\<close>

definition stored_manifest :: "'a world_scheme \<Rightarrow> manifest" where
  "stored_manifest w = (case hashfile w of None \<Rightarrow> [] | Some t \<Rightarrow> parsed_hashes t)"

text \<open>What a run reports and the manifest it has in memory.\<close>

definition outcome :: "deployer \<Rightarrow> string list \<times> string list \<times> string list \<times> string list \<times> manifest" where
  "outcome s = (uploaded s, removed s, unchanged s, errors s, remoteHashes s)"

text \<open>
  The later state has the remote files, the manifest file and the faults of the earlier
  one, and only calls that change nothing have been issued in between.
\<close>

definition remote_untouched :: "'a world_scheme \<Rightarrow> 'b world_scheme \<Rightarrow> bool" where
  "remote_untouched w w' \<longleftrightarrow>
     faults w' = faults w \<and> tmp_write_error w' = tmp_write_error w
     \<and> tree w' = tree w \<and> hashfile w' = hashfile w
     \<and> (\<exists>cs. calls w' = calls w @ cs \<and> list_all (\<lambda>c. \<not> mutating c) cs)"

text \<open>
  A dry run and a real run agree so far: same statistics, same manifest in memory, and
  no failure to come on either side.
\<close>

definition sim :: "deployer \<Rightarrow> deployer \<Rightarrow> bool" where
  "sim d r \<longleftrightarrow>
     outcome d = outcome r \<and> no_faults d \<and> no_faults r \<and> tmp_write_error r = None"

text \<open>A dry run in clean mode.\<close>

definition dry_config :: config where
  "dry_config = plain_config\<lparr>clean_remote_files := True, dry_run := True\<rparr>"

text \<open>Clear-destination on, and its dry-run variant.\<close>

definition clearing_config :: config where
  "clearing_config = plain_config\<lparr>clear_destination := True\<rparr>"

text \<open>Clean mode, nothing preserved.\<close>

definition clean_config :: config where
  "clean_config = plain_config\<lparr>clean_remote_files := True\<rparr>"

text \<open>
  A server without manifest that holds \<^verbatim>\<open>a.txt\<close> and two files that do not exist
  locally, one of them named \<^verbatim>\<open>constructor\<close>; no failure.
\<close>

definition builtin_name_world :: world where
  "builtin_name_world =
     quiet_world\<lparr>tree := [RFile ''a.txt'', RFile ''constructor'', RFile ''old.txt'']\<rparr>"

section \<open>The preserve rules\<close>

lemma spec_forward_slashes_code: "spec_forward_slashes s = replace_backslashes s"
  by (induction s) (simp_all add: replace_backslashes_def)

lemma spec_forward_slashes_plain: "CHR 0x5C \<notin> set s \<Longrightarrow> spec_forward_slashes s = s"
  by (induction s) auto

lemma cleanPreservePath_spec: "cleanPreservePath e = spec_strip_trailing_slash e"
proof (cases e rule: rev_cases)
  case Nil
  then show ?thesis
    by (simp add: cleanPreservePath_def spec_strip_trailing_slash_def)
next
  case (snoc ys y)
  then show ?thesis
    by (auto simp: cleanPreservePath_def spec_strip_trailing_slash_def suffix_def)
qed

lemma preserve_matches_spec:
  "preserve_matches p e \<longleftrightarrow>
     spec_forward_slashes p = spec_strip_trailing_slash (spec_forward_slashes e) \<or>
     prefix (spec_strip_trailing_slash (spec_forward_slashes e) @ ''/'') (spec_forward_slashes p)"
  by (simp add: preserve_matches_def Let_def cleanPreservePath_spec spec_forward_slashes_code)

lemma shouldPreserve_spec:
  "shouldPreserve entries p \<longleftrightarrow> spec_preserved (spec_forward_slashes ` set entries) p"
  by (cases entries)
     (simp_all add: shouldPreserve_def spec_preserved_def list_ex_iff preserve_matches_spec)

text \<open>
  C7 as stated fails when a preserve entry is written with a backslash: the rule
  normalises the separators of the path only, the code those of the entry too. The
  entry \<^verbatim>\<open>a\b\<close> preserves the path \<^verbatim>\<open>a/b\<close> in the code and not in the rule.
\<close>

theorem shouldPreserve_entry_backslash_counterexample:
  "shouldPreserve [[CHR ''a'', CHR 0x5C, CHR ''b'']] ''a/b''
   \<and> \<not> spec_preserved {[CHR ''a'', CHR 0x5C, CHR ''b'']} ''a/b''"
  by (simp add: shouldPreserve_def preserve_matches_def replace_backslashes_def
      cleanPreservePath_def suffix_def Let_def spec_preserved_def spec_strip_trailing_slash_def)

text \<open>
  C7, amended. \<^verbatim>\<open>shouldPreserve\<close> is true exactly when, after the separators of the path
  and of every preserve entry have been normalised to forward slashes, the path equals
  some entry with one trailing slash stripped, or starts with that stripped entry
  followed by a slash. For preserve entries without a backslash this is the rule as the
  specification words it. A path and an entry written with backslashes match
  (\<^verbatim>\<open>up\loads\<close> with a trailing backslash preserves \<^verbatim>\<open>up/loads\x.txt\<close>), a backslash in
  the path is a separator (\<^verbatim>\<open>uploads\<close> preserves \<^verbatim>\<open>uploads\a.png\<close>), the entry
  \<^verbatim>\<open>uploads\<close> does not match \<^verbatim>\<open>uploads2/file\<close>, and with no preserve entry the predicate
  is false for every path.
\<close>

theorem shouldPreserve_normalises_path_and_entries:
  "(shouldPreserve entries p \<longleftrightarrow> spec_preserved (spec_forward_slashes ` set entries) p)
   \<and> ((\<forall>e \<in> set entries. CHR 0x5C \<notin> set e) \<longrightarrow>
        (shouldPreserve entries p \<longleftrightarrow> spec_preserved (set entries) p))
   \<and> shouldPreserve [''up'' @ [CHR 0x5C] @ ''loads'' @ [CHR 0x5C]]
        (''up/loads'' @ [CHR 0x5C] @ ''x.txt'')
   \<and> shouldPreserve [''uploads''] (''uploads'' @ [CHR 0x5C] @ ''a.png'')
   \<and> \<not> shouldPreserve [''uploads''] ''uploads2/file''
   \<and> \<not> shouldPreserve [] p"
proof -
  have "(\<forall>e \<in> set entries. CHR 0x5C \<notin> set e) \<longrightarrow>
        (shouldPreserve entries p \<longleftrightarrow> spec_preserved (set entries) p)"
  proof
    assume "\<forall>e \<in> set entries. CHR 0x5C \<notin> set e"
    then have "spec_forward_slashes ` set entries = set entries"
      by (auto simp: spec_forward_slashes_plain image_iff)
    then show "shouldPreserve entries p \<longleftrightarrow> spec_preserved (set entries) p"
      by (simp add: shouldPreserve_spec)
  qed
  moreover have "shouldPreserve [''up'' @ [CHR 0x5C] @ ''loads'' @ [CHR 0x5C]]
        (''up/loads'' @ [CHR 0x5C] @ ''x.txt'')"
    by (simp add: shouldPreserve_def preserve_matches_def replace_backslashes_def
        cleanPreservePath_def suffix_def Let_def)
  moreover have "shouldPreserve [''uploads''] (''uploads'' @ [CHR 0x5C] @ ''a.png'')"
    by (simp add: shouldPreserve_def preserve_matches_def replace_backslashes_def
        cleanPreservePath_def suffix_def Let_def)
  moreover have "\<not> shouldPreserve [''uploads''] ''uploads2/file''"
    by (simp add: shouldPreserve_def preserve_matches_def replace_backslashes_def
        cleanPreservePath_def suffix_def Let_def)
  moreover have "\<not> shouldPreserve [] p"
    by (simp add: shouldPreserve_def)
  ultimately show ?thesis using shouldPreserve_spec [of entries p] by blast
qed

theorem shouldPreserve_normalises_path_and_entries_witness:
  "list_all (\<lambda>e. CHR 0x5C \<notin> set e) [''logs'', ''uploads/'']
   \<and> shouldPreserve [''logs'', ''uploads/''] (''uploads'' @ [CHR 0x5C] @ ''img/a.png'')
   \<and> spec_preserved (set [''logs'', ''uploads/'']) (''uploads'' @ [CHR 0x5C] @ ''img/a.png'')
   \<and> \<not> shouldPreserve [''logs'', ''uploads/''] ''uploads.txt''
   \<and> \<not> spec_preserved (set [''logs'', ''uploads/'']) ''uploads.txt''"
proof -
  have h: "\<forall>e \<in> set [''logs'', ''uploads/'']. CHR 0x5C \<notin> set e" by simp
  have a: "spec_preserved (set [''logs'', ''uploads/'']) (''uploads'' @ [CHR 0x5C] @ ''img/a.png'')"
    by (simp add: spec_preserved_def spec_strip_trailing_slash_def)
  have b: "\<not> spec_preserved (set [''logs'', ''uploads/'']) ''uploads.txt''"
    by (simp add: spec_preserved_def spec_strip_trailing_slash_def)
  show ?thesis
    using h a b
      shouldPreserve_normalises_path_and_entries
        [of "[''logs'', ''uploads/'']" "''uploads'' @ [CHR 0x5C] @ ''img/a.png''"]
      shouldPreserve_normalises_path_and_entries [of "[''logs'', ''uploads/'']" "''uploads.txt''"]
    by simp
qed

section \<open>Retry\<close>

declare executeWithRetry_from.simps [simp del]

lemma executeWithRetry_from_last:
  assumes "fst (operation w) = Inl e"
  shows "executeWithRetry_from cfg operation retries retries w = operation w"
  using assms
  by (subst executeWithRetry_from.simps) (auto split: prod.splits sum.splits)

lemma executeWithRetry_from_retry:
  assumes "fst (operation w) = Inl e" "isConnectionError e" "reconnect cfg" "attempt < retries"
  shows "executeWithRetry_from cfg operation retries attempt w =
         executeWithRetry_from cfg operation retries (attempt + 1) (retry_round operation w)"
  using assms
  by (subst executeWithRetry_from.simps) (auto simp: retry_round_def split: prod.splits sum.splits)

lemma executeWithRetry_from_run:
  assumes r: "reconnect cfg"
  shows "attempt \<le> retries \<Longrightarrow> n = nat (retries - attempt) \<Longrightarrow>
         \<forall>k \<le> n. \<exists>e. fst (operation ((retry_round operation ^^ k) w)) = Inl e \<and> isConnectionError e \<Longrightarrow>
         executeWithRetry_from cfg operation retries attempt w =
         operation ((retry_round operation ^^ n) w)"
proof (induction n arbitrary: attempt w)
  case 0
  then have "attempt = retries" by simp
  moreover obtain e where "fst (operation w) = Inl e" using 0(3) by auto
  ultimately show ?case by (simp add: executeWithRetry_from_last)
next
  case (Suc n)
  then have lt: "attempt < retries" and n: "n = nat (retries - (attempt + 1))" by auto
  obtain e where e: "fst (operation w) = Inl e" "isConnectionError e"
    using Suc.prems(3) [rule_format, of 0] by auto
  have t: "\<forall>k \<le> n. \<exists>e. fst (operation ((retry_round operation ^^ k) (retry_round operation w))) = Inl e
               \<and> isConnectionError e"
  proof (intro allI impI)
    fix k assume "k \<le> n"
    then show "\<exists>e. fst (operation ((retry_round operation ^^ k) (retry_round operation w))) = Inl e
               \<and> isConnectionError e"
      using Suc.prems(3) [rule_format, of "Suc k"] by (simp add: funpow_swap1)
  qed
  have "executeWithRetry_from cfg operation retries attempt w =
        executeWithRetry_from cfg operation retries (attempt + 1) (retry_round operation w)"
    using e r lt by (rule executeWithRetry_from_retry)
  also have "\<dots> = operation ((retry_round operation ^^ n) (retry_round operation w))"
    using lt n t by (intro Suc.IH) auto
  finally show ?case by (simp add: funpow_swap1)
qed

lemma executeWithRetry_from_none:
  "retries < attempt \<Longrightarrow>
   executeWithRetry_from cfg operation retries attempt w = (Inl (generic_error retries), w)"
  by (subst executeWithRetry_from.simps) simp

lemma isConnectionError_reset_error: "isConnectionError reset_error"
  by (simp add: isConnectionError_def reset_error_def)

lemmas concrete_defs =
  quiet_world_def plain_config_def reset_error_def

lemmas client_defs =
  issue_def client_access_def client_close_def reconnect_client_def
  client_size_hashfile_def client_downloadTo_hashfile_def client_uploadFrom_hashfile_def
  client_ensureDir_def client_uploadFrom_def client_remove_def

lemma digit_char_not_c: "d < 10 \<Longrightarrow> digit_char d \<noteq> CHR ''c''"
proof
  assume d: "d < 10" and "digit_char d = CHR ''c''"
  then have "(of_char (digit_char d) :: nat) = of_char (CHR ''c'')" by simp
  then show False using d by (simp add: digit_char_def)
qed

lemma decimal_digits_no_c: "CHR ''c'' \<notin> set acc \<Longrightarrow> CHR ''c'' \<notin> set (decimal_digits n acc)"
proof (induction n acc rule: decimal_digits.induct)
  case (1 n acc)
  have d: "digit_char (n mod 10) \<noteq> CHR ''c''" by (rule digit_char_not_c) simp
  show ?case
  proof (cases "n < 10")
    case True
    then show ?thesis using 1(2) d by (subst decimal_digits.simps) (simp add: Let_def)
  next
    case False
    then show ?thesis using 1 d by (subst decimal_digits.simps) (simp add: Let_def)
  qed
qed

lemma generic_error_not_transient: "\<not> isConnectionError (generic_error N)"
proof -
  have c: "CHR ''c'' \<notin> set (emessage (generic_error N))"
    by (simp add: generic_error_def number_to_string_def decimal_digits_no_c
        del: decimal_digits.simps)
  have "sublist ''connection'' xs \<Longrightarrow> CHR ''c'' \<in> set xs" for xs
    by (auto simp: sublist_def)
  then have "\<not> sublist ''connection'' (emessage (generic_error N))" using c by blast
  moreover have "ecode (generic_error N) = []" by (simp add: generic_error_def)
  ultimately show ?thesis by (simp add: isConnectionError_def)
qed

text \<open>
  C3 as stated fails: with two attempts allowed and reconnection enabled, the removal of
  a file over a connection that resets every call raises the connection-reset error of
  the second attempt, not the generic error.
\<close>

theorem executeWithRetry_generic_counterexample:
  "reconnect plain_config \<and> isConnectionError reset_error
   \<and> fst (executeWithRetry plain_config (client_remove plain_config ''old.txt'') 2 unreachable_world)
       = Inl reset_error
   \<and> calls (snd (executeWithRetry plain_config (client_remove plain_config ''old.txt'') 2 unreachable_world))
       = [Remove ''/public_html/old.txt'', Close, Access, Remove ''/public_html/old.txt'']
   \<and> reset_error \<noteq> generic_error 2"
  by (simp add: executeWithRetry_def executeWithRetry_from.simps isConnectionError_def
      generic_error_def client_defs unreachable_world_def sample_world_def plain_config_def
      reset_error_def remote_path_def posix_join_def posix_normalize_def Let_def)

text \<open>
  C3, amended. When reconnection is enabled, \<open>1 \<le> N\<close> and each of the \<open>N\<close> attempts
  made raises a connection-classified error (attempt \<open>k + 1\<close> runs in the world left by
  \<open>k\<close> rounds of a failed attempt followed by a reconnection), \<^verbatim>\<open>executeWithRetry\<close>
  makes \<open>N\<close> attempts, with a reconnection after each of the first \<open>N - 1\<close>, and its
  outcome is the outcome of the last attempt: it raises the error the operation raised
  there, which is connection-classified and is not the generic error. The generic error
  \<^verbatim>\<open>Operation failed after N attempts\<close> is raised when \<open>N < 1\<close>, before any attempt.
\<close>

theorem executeWithRetry_exhausted_raises_last_error:
  assumes "reconnect cfg"
    and "\<forall>k < nat N. \<exists>e. fst (operation ((retry_round operation ^^ k) w)) = Inl e
                          \<and> isConnectionError e"
  shows "(1 \<le> N \<longrightarrow>
            executeWithRetry cfg operation N w =
              operation ((retry_round operation ^^ nat (N - 1)) w)
            \<and> (\<exists>e. fst (executeWithRetry cfg operation N w) = Inl e \<and> isConnectionError e)
            \<and> fst (executeWithRetry cfg operation N w) \<noteq> Inl (generic_error N))
         \<and> (N < 1 \<longrightarrow> executeWithRetry cfg operation N w = (Inl (generic_error N), w))"
proof (cases "1 \<le> N")
  case True
  have t: "\<forall>k \<le> nat (N - 1). \<exists>e. fst (operation ((retry_round operation ^^ k) w)) = Inl e
                          \<and> isConnectionError e"
    using assms(2) True by auto
  have a: "executeWithRetry cfg operation N w = operation ((retry_round operation ^^ nat (N - 1)) w)"
    using executeWithRetry_from_run [OF assms(1) True refl t]
    by (simp add: executeWithRetry_def)
  obtain e where e: "fst (operation ((retry_round operation ^^ nat (N - 1)) w)) = Inl e"
      "isConnectionError e"
    using t by blast
  have "e \<noteq> generic_error N" using e(2) generic_error_not_transient by auto
  then show ?thesis using True a e by auto
next
  case False
  then show ?thesis
    using executeWithRetry_from_none [of N 1 cfg operation w] by (simp add: executeWithRetry_def)
qed

theorem executeWithRetry_exhausted_raises_last_error_witness:
  "reconnect plain_config
   \<and> (1::int) \<le> 3
   \<and> fst (executeWithRetry plain_config (client_remove plain_config ''old.txt'') 3 unreachable_world)
       = Inl reset_error
   \<and> calls (snd (executeWithRetry plain_config (client_remove plain_config ''old.txt'') 3
                   unreachable_world))
       = [Remove ''/public_html/old.txt'', Close, Access,
          Remove ''/public_html/old.txt'', Close, Access,
          Remove ''/public_html/old.txt'']
   \<and> tree (snd (executeWithRetry plain_config (client_remove plain_config ''old.txt'') 3
                   unreachable_world)) = tree sample_world"
proof -
  let ?op = "client_remove plain_config ''old.txt'' :: world \<Rightarrow> (err + unit) \<times> world"
  have r: "reconnect plain_config" by (simp add: plain_config_def)
  have f: "faults ((retry_round ?op ^^ k) unreachable_world) = (\<lambda>k. Some reset_error)" for k
    by (induction k) (simp_all add: unreachable_world_def retry_round_def client_defs)
  have o: "fst (?op w) = Inl reset_error" if "faults w = (\<lambda>k. Some reset_error)" for w
    using that by (simp add: client_defs)
  have t: "\<forall>k < nat 3. \<exists>e. fst (?op ((retry_round ?op ^^ k) unreachable_world)) = Inl e
                          \<and> isConnectionError e"
    using o [OF f] isConnectionError_reset_error by blast
  have e: "executeWithRetry plain_config ?op 3 unreachable_world =
      ?op ((retry_round ?op ^^ 2) unreachable_world)"
    using executeWithRetry_exhausted_raises_last_error [OF r t] by simp
  have w2: "(retry_round ?op ^^ 2) unreachable_world =
     unreachable_world\<lparr>calls := [Remove ''/public_html/old.txt'', Close, Access,
          Remove ''/public_html/old.txt'', Close, Access], connected := False\<rparr>"
    by (simp add: eval_nat_numeral retry_round_def client_defs unreachable_world_def sample_world_def
        plain_config_def remote_path_def posix_join_def posix_normalize_def Let_def)
  show ?thesis
    using r
    by (simp add: e w2) (simp add: client_defs unreachable_world_def sample_world_def
        plain_config_def remote_path_def posix_join_def posix_normalize_def Let_def)
qed


section \<open>Loading the manifest\<close>

lemma remoteHashFile_plain_config:
  "remoteHashFile plain_config = ''/public_html/.deploy_ftp_hash.json''"
  by (simp add: remoteHashFile_def plain_config_def posix_join_def posix_normalize_def
      HASH_FILE_NAME_def Let_def)

text \<open>
  C10. Whatever error the size query raises, a transient connection error included,
  \<^verbatim>\<open>remoteFileExists\<close> answers \<^verbatim>\<open>false\<close> after that single call, and \<^verbatim>\<open>loadRemoteHashes\<close>
  returns the empty manifest: no retry, no reconnection, no download, and nothing is
  recorded besides the call itself.
\<close>

theorem remoteFileExists_error_means_absent:
  assumes "faults w (length (calls w)) = Some e"
  shows "remoteFileExists cfg w = (False, w\<lparr>calls := calls w @ [Size (remoteHashFile cfg)]\<rparr>)
       \<and> loadRemoteHashes cfg w = ([], w\<lparr>calls := calls w @ [Size (remoteHashFile cfg)]\<rparr>)"
  using assms
  by (simp add: loadRemoteHashes_def remoteFileExists_def client_size_hashfile_def issue_def)

theorem remoteFileExists_error_means_absent_witness:
  "faults flaky_world (length (calls flaky_world)) = Some reset_error
   \<and> isConnectionError reset_error
   \<and> hashfile flaky_world = Some (HashText_json [(''a.txt'', Str ''h1'')])
   \<and> fst (remoteFileExists plain_config flaky_world) = False
   \<and> fst (loadRemoteHashes plain_config flaky_world) = []
   \<and> calls (snd (loadRemoteHashes plain_config flaky_world)) =
       [Size ''/public_html/.deploy_ftp_hash.json'']"
proof -
  have f: "faults flaky_world (length (calls flaky_world)) = Some reset_error"
    by (simp add: flaky_world_def)
  show ?thesis
    using f remoteFileExists_error_means_absent [OF f, of plain_config]
    by (simp add: remoteHashFile_plain_config isConnectionError_reset_error)
       (simp add: flaky_world_def)
qed


section \<open>Paths\<close>

lemma split_on_no_sep: "c \<notin> set s \<Longrightarrow> split_on c s = [s]"
  by (induction s) auto

lemma split_on_sep: "c \<notin> set s \<Longrightarrow> split_on c (s @ c # t) = s # split_on c t"
  by (induction s) auto

lemma split_on_not_Nil [simp]: "split_on c s \<noteq> []"
  by (induction s) (auto split: list.splits)

lemma split_on_append_sep: "split_on c (s @ c # t) = split_on c s @ split_on c t"
proof (induction s)
  case Nil
  then show ?case by simp
next
  case (Cons x s)
  then show ?case by (cases "split_on c s") auto
qed

lemma last_split_on_sep: "last (split_on c (s @ c # t)) = last (split_on c t)"
  by (simp add: split_on_append_sep)

lemma split_on_join_slash:
  "segs \<noteq> [] \<Longrightarrow> \<forall>seg\<in>set segs. CHR ''/'' \<notin> set seg \<Longrightarrow>
   split_on CHR ''/'' (join_slash segs) = segs"
  by (induction segs rule: join_slash.induct) (auto simp: split_on_no_sep split_on_sep)

lemma join_slash_snoc: "segs \<noteq> [] \<Longrightarrow> join_slash (segs @ [n]) = join_slash segs @ ''/'' @ n"
  by (induction segs rule: join_slash.induct) auto

lemma normalize_segments_plain:
  "\<forall>seg\<in>set segs. plain_segment seg \<Longrightarrow> normalize_segments b acc segs = rev acc @ segs"
  by (induction segs arbitrary: acc) (auto simp: plain_segment_def)

lemma last_split_rel_join:
  "CHR ''/'' \<notin> set n \<Longrightarrow> last (split_on CHR ''/'' (rel_join rel n)) = n"
  by (simp add: rel_join_def last_split_on_sep split_on_no_sep)

lemma plain_segmentD:
  "plain_segment seg \<Longrightarrow> seg \<noteq> [] \<and> CHR ''/'' \<notin> set seg"
  by (simp add: plain_segment_def)

lemma notin_hd_last: "s \<noteq> [] \<Longrightarrow> c \<notin> set s \<Longrightarrow> hd s \<noteq> c \<and> last s \<noteq> c"
  by (metis hd_in_set last_in_set)

lemma join_slash_sound_facts:
  assumes "segs \<noteq> []" "\<forall>seg\<in>set segs. seg \<noteq> [] \<and> CHR ''/'' \<notin> set seg"
  shows "join_slash segs \<noteq> [] \<and> hd (join_slash segs) \<noteq> CHR ''/''
         \<and> last (join_slash segs) \<noteq> CHR ''/''"
  using assms
proof (induction segs rule: join_slash.induct)
  case 1
  then show ?case by simp
next
  case (2 s)
  then have "s \<noteq> []" "CHR ''/'' \<notin> set s" by auto
  then show ?case using notin_hd_last [of s "CHR ''/''"] by simp
next
  case (3 s t ss)
  then have s: "s \<noteq> []" "CHR ''/'' \<notin> set s" by auto
  have ih: "join_slash (t # ss) \<noteq> [] \<and> last (join_slash (t # ss)) \<noteq> CHR ''/''"
    using 3 by simp
  have "hd (join_slash (s # t # ss)) = hd s" using s by simp
  moreover have "last (join_slash (s # t # ss)) = last (join_slash (t # ss))"
    using ih by simp
  ultimately show ?case using s ih notin_hd_last [of s "CHR ''/''"] by simp
qed

lemma join_slash_plain_facts:
  assumes "segs \<noteq> []" "\<forall>seg\<in>set segs. plain_segment seg"
  shows "join_slash segs \<noteq> []" "hd (join_slash segs) \<noteq> CHR ''/''"
    "last (join_slash segs) \<noteq> CHR ''/''"
  using join_slash_sound_facts [of segs] assms plain_segmentD by blast+

lemma posix_normalize_plain:
  assumes "segs \<noteq> []" "\<forall>seg\<in>set segs. plain_segment seg" "root = [] \<or> root = ''/''"
  shows "posix_normalize (root @ join_slash segs) = root @ join_slash segs"
proof -
  note f = join_slash_plain_facts [OF assms(1,2)]
  have sp: "split_on CHR ''/'' (join_slash segs) = segs"
    using assms(1,2) plain_segmentD by (intro split_on_join_slash) blast+
  show ?thesis
  proof (cases "root = []")
    case True
    have "normalize_segments True [] segs = segs"
      using normalize_segments_plain [OF assms(2), of True "[]"] by simp
    then show ?thesis
      unfolding posix_normalize_def Let_def using True f sp by simp
  next
    case False
    then have r: "root = ''/''" using assms(3) by simp
    have "normalize_segments False [] ([] # segs) = segs"
      using normalize_segments_plain [OF assms(2), of False "[]"] by simp
    then show ?thesis
      unfolding posix_normalize_def Let_def using r f sp by simp
  qed
qed

lemma posix_join_plain:
  assumes "segs \<noteq> []" "\<forall>seg\<in>set segs. plain_segment seg" "plain_segment n"
    and "root = [] \<or> root = ''/''"
  shows "posix_join [root @ join_slash segs, n] = root @ join_slash segs @ ''/'' @ n"
proof -
  have a: "root @ join_slash segs \<noteq> []" "n \<noteq> []"
    using join_slash_plain_facts(1) [OF assms(1,2)] plain_segmentD [OF assms(3)] by auto
  have "posix_join [root @ join_slash segs, n] = posix_normalize (root @ join_slash (segs @ [n]))"
    using a assms(1) by (simp add: posix_join_def join_slash_snoc)
  also have "\<dots> = root @ join_slash (segs @ [n])"
    using assms by (intro posix_normalize_plain) auto
  finally show ?thesis using assms(1) by (simp add: join_slash_snoc)
qed


section \<open>The manifest file\<close>

lemma plain_segment_HASH_FILE_NAME: "plain_segment HASH_FILE_NAME"
  by (simp add: plain_segment_def HASH_FILE_NAME_def)

lemma getRemoteFiles_never_lists_manifest:
  "list_all slashfree items \<Longrightarrow>
     \<forall>p\<in>set (fst (getRemoteFiles cfg rel items w)). last (split_on CHR ''/'' p) \<noteq> HASH_FILE_NAME"
  "list_all slashfree items \<Longrightarrow>
     \<forall>p\<in>set (fst (getRemoteFiles_items cfg rel items w)). last (split_on CHR ''/'' p) \<noteq> HASH_FILE_NAME"
proof (induction cfg rel items w and cfg rel items w rule: getRemoteFiles_getRemoteFiles_items.induct)
  case (1 cfg rel items w)
  then show ?case by (auto split: prod.splits option.splits)
next
  case (2 cfg rel w)
  then show ?case by simp
next
  case (3 cfg rel n sub items w)
  then show ?case by (auto split: prod.splits)
next
  case (4 cfg rel n items w)
  then show ?case by (auto split: prod.splits simp: last_split_rel_join)
next
  case (5 cfg rel n items w)
  then show ?case by simp
qed

text \<open>
  C9 as stated fails: the manifest of the remote root \<^verbatim>\<open>/public_html\<close> is not at
  \<^verbatim>\<open>/public_html/.deploy_hash_manifest.json\<close>, and a remote file of that name is listed
  by the remote scan like any other file.
\<close>

theorem manifest_path_counterexample:
  "remote_dir plain_config = ''/public_html''
   \<and> remoteHashFile plain_config \<noteq> ''/public_html/.deploy_hash_manifest.json''
   \<and> fst (scanRemote plain_config (quiet_world\<lparr>tree := [RFile ''.deploy_hash_manifest.json'']\<rparr>))
       = [''.deploy_hash_manifest.json'']"
proof -
  have "fst (scanRemote plain_config (quiet_world\<lparr>tree := [RFile ''.deploy_hash_manifest.json'']\<rparr>))
       = [''.deploy_hash_manifest.json'']"
    by (simp add: scanRemote_def issue_def rel_join_def HASH_FILE_NAME_def quiet_world_def)
  moreover have "remote_dir plain_config = ''/public_html''"
    by (simp add: plain_config_def)
  ultimately show ?thesis
    by (simp add: remoteHashFile_plain_config)
qed

text \<open>
  C9, amended. The manifest lives at \<^verbatim>\<open>path.posix.join(remote_dir, '.deploy_ftp_hash.json')\<close>,
  which is \<^verbatim>\<open><remote_root>/.deploy_ftp_hash.json\<close> for a normalised remote root with at
  least one segment. A file of that name, in whatever directory, is never returned by
  the remote scan, hence never among the orphans computed from it, and the test for an
  empty directory ignores it.
\<close>

theorem manifest_path_and_exclusion:
  assumes "segs \<noteq> []" and "\<forall>seg\<in>set segs. plain_segment seg" and "root = [] \<or> root = ''/''"
    and "remote_dir cfg = root @ join_slash segs"
    and "list_all slashfree (tree w)"
  shows "remoteHashFile cfg = remote_dir cfg @ ''/.deploy_ftp_hash.json''
       \<and> (\<forall>p\<in>set (fst (scanRemote cfg w)).
             last (split_on CHR ''/'' p) \<noteq> ''.deploy_ftp_hash.json'')
       \<and> (\<forall>p\<in>set (orphanedFiles localHashes (fst (scanRemote cfg w))).
             last (split_on CHR ''/'' p) \<noteq> ''.deploy_ftp_hash.json'')
       \<and> hasContent (RFile ''.deploy_ftp_hash.json'' # items) = hasContent items"
proof -
  have a: "remoteHashFile cfg = remote_dir cfg @ ''/.deploy_ftp_hash.json''"
    using posix_join_plain [OF assms(1,2) plain_segment_HASH_FILE_NAME assms(3)] assms(4)
    by (simp add: remoteHashFile_def) (simp add: HASH_FILE_NAME_def)
  have b: "\<forall>p\<in>set (fst (scanRemote cfg w)). last (split_on CHR ''/'' p) \<noteq> ''.deploy_ftp_hash.json''"
    using getRemoteFiles_never_lists_manifest(1) [OF assms(5), of cfg "[]" w]
    by (simp add: scanRemote_def HASH_FILE_NAME_def)
  have c: "hasContent (RFile ''.deploy_ftp_hash.json'' # items) = hasContent items"
    by (simp add: hasContent_def HASH_FILE_NAME_def)
  show ?thesis using a b c by (simp add: orphanedFiles_def)
qed


theorem manifest_path_and_exclusion_witness:
  "plain_segment ''public_html''
   \<and> remote_dir plain_config = ''/'' @ join_slash [''public_html'']
   \<and> list_all slashfree (tree sample_world)
   \<and> remoteHashFile plain_config = ''/public_html/.deploy_ftp_hash.json''
   \<and> RFile ''.deploy_ftp_hash.json'' \<in> set (tree (sample_world\<lparr>tree := [RFile ''.deploy_ftp_hash.json'']\<rparr>))
   \<and> fst (scanRemote plain_config sample_world) = [''a.txt'', ''old.txt'', ''sub/x.bin'']
   \<and> last (split_on CHR ''/'' ''sub/x.bin'') \<noteq> ''.deploy_ftp_hash.json''"
proof -
  have h1: "[''public_html''] \<noteq> []" by simp
  have h2: "\<forall>seg\<in>set [''public_html'']. plain_segment seg"
    by (simp add: plain_segment_def)
  have h3: "''/'' = [] \<or> ''/'' = ''/''" by simp
  have h4: "remote_dir plain_config = ''/'' @ join_slash [''public_html'']"
    by (simp add: plain_config_def)
  have h5: "list_all slashfree (tree sample_world)"
    by (simp add: sample_world_def)
  have s: "fst (scanRemote plain_config sample_world) = [''a.txt'', ''old.txt'', ''sub/x.bin'']"
    by (simp add: scanRemote_def issue_def rel_join_def HASH_FILE_NAME_def sample_world_def)
  show ?thesis
    using manifest_path_and_exclusion [OF h1 h2 h3 h4 h5, of "[]" "[]"] h2 h4 h5 s
    by simp
qed


section \<open>The main method: errors and the connection\<close>

lemma new_deployer_simps [simp]:
  "faults (new_deployer w) = faults w" "calls (new_deployer w) = calls w"
  "tree (new_deployer w) = tree w" "hashfile (new_deployer w) = hashfile w"
  "connected (new_deployer w) = connected w" "tmp_write_error (new_deployer w) = tmp_write_error w"
  "uploaded (new_deployer w) = []" "removed (new_deployer w) = []"
  "unchanged (new_deployer w) = []" "errors (new_deployer w) = []"
  "remoteHashes (new_deployer w) = []"
  by (simp_all add: new_deployer_def world.extend_def)

lemmas path_defs =
  remoteHashFile_def remote_path_def posix_join_def posix_normalize_def posix_dirname_def
  rel_join_def HASH_FILE_NAME_def

lemmas deploy_defs =
  deploy_def deploy_try_def scanRemoteIfClean_def syncFiles_def updateRemoteHashFile_def
  clearDestination_def clearFile_def scanRemote_def
  loadRemoteHashes_def remoteFileExists_def saveRemoteHashes_def make_localHashes_def
  uploadPhase_def processLocalFile_def cleanPhase_def orphanedFiles_def filesToRemove_def
  preservedFiles_def keepPreserved_def removeOrphan_def removeEmptyDirectories_def
  hasContent_def push_error_def default_retries_def
  js_get_def js_set_def js_delete_def strict_equals_def object_prototype_names_def
  json_stringify_def
  executeWithRetry_def executeWithRetry_from.simps
  getRemoteFiles.simps removeEmptyDirectories_in.simps
  shouldPreserve_def preserve_matches_def replace_backslashes_def cleanPreservePath_def









section \<open>Frame lemmas\<close>

lemma more_deployer_fields:
  fixes s s' :: deployer
  assumes "world.more s' = world.more s"
  shows "uploaded s' = uploaded s" "removed s' = removed s" "unchanged s' = unchanged s"
    "errors s' = errors s" "remoteHashes s' = remoteHashes s"
  using assms by (cases s; cases s'; simp)+

lemma frame_refl [simp]: "frame w w"
  by (simp add: frame_def)

lemma frame_trans: "frame w w' \<Longrightarrow> frame w' w'' \<Longrightarrow> frame w w''"
  by (simp add: frame_def)

lemma frame_client [simp]:
  "frame w (snd (issue c w))" "frame w (snd (client_access w))" "frame w (client_close w)"
  "frame w (snd (reconnect_client w))"
  "frame w (snd (client_size_hashfile cfg w))" "frame w (snd (client_downloadTo_hashfile cfg w))"
  "frame w (snd (client_uploadFrom_hashfile cfg m w))" "frame w (snd (client_ensureDir cfg p w))"
  "frame w (snd (client_uploadFrom cfg p w))" "frame w (snd (client_remove cfg p w))"
  by (simp_all add: frame_def client_defs split: prod.splits option.splits)

lemma executeWithRetry_from_invariant:
  assumes op: "\<And>w. P w \<Longrightarrow> P (snd (operation w))"
    and rc: "\<And>w. P w \<Longrightarrow> P (snd (reconnect_client w))"
  shows "P w \<Longrightarrow> P (snd (executeWithRetry_from cfg operation retries attempt w))"
proof (induction "nat (retries + 1 - attempt)" arbitrary: attempt w)
  case 0
  then show ?case by (subst executeWithRetry_from.simps) simp
next
  case (Suc n)
  obtain r w1 where o: "operation w = (r, w1)" by (cases "operation w")
  obtain rr w2 where r: "reconnect_client w1 = (rr, w2)" by (cases "reconnect_client w1")
  have p1: "P w1" using op [OF Suc.prems] o by (metis snd_conv)
  have p2: "P w2" using rc [OF p1] r by (metis snd_conv)
  have ih: "attempt < retries \<Longrightarrow>
      P (snd (executeWithRetry_from cfg operation retries (attempt + 1) w2))"
    using Suc.hyps(1) [of "attempt + 1" w2] Suc.hyps(2) p2 by simp
  show ?case
    using o r p1 p2 ih Suc.prems
    by (subst executeWithRetry_from.simps) (auto split: sum.splits)
qed

lemma executeWithRetry_invariant:
  assumes "\<And>w. P w \<Longrightarrow> P (snd (operation w))"
    and "\<And>w. P w \<Longrightarrow> P (snd (reconnect_client w))"
    and "P w"
  shows "P (snd (executeWithRetry cfg operation retries w))"
  unfolding executeWithRetry_def using assms by (rule executeWithRetry_from_invariant)

lemma executeWithRetry_frame:
  assumes "\<And>w. frame w (snd (operation w))"
  shows "frame w (snd (executeWithRetry cfg operation retries w))"
proof (rule executeWithRetry_invariant [where P = "frame w"])
  show "frame w (snd (operation w'))" if "frame w w'" for w'
    using that assms [of w'] by (rule frame_trans)
  show "frame w (snd (reconnect_client w'))" if "frame w w'" for w'
    using that frame_client(4) [of w'] by (rule frame_trans)
qed simp


lemma frame_deployer:
  fixes s s' :: deployer
  assumes "frame s s'"
  shows "uploaded s' = uploaded s" "removed s' = removed s" "unchanged s' = unchanged s"
    "errors s' = errors s" "remoteHashes s' = remoteHashes s" "faults s' = faults s"
    "tmp_write_error s' = tmp_write_error s"
  using assms more_deployer_fields [of s' s] by (simp_all add: frame_def)


section \<open>The upload loop\<close>

lemma js_get_js_set_other: "k' \<noteq> k \<Longrightarrow> js_get (js_set k v obj) k' = js_get obj k'"
  by (simp add: js_get_def js_set_def update_conv')

lemma js_get_js_set_same: "k \<noteq> ''__proto__'' \<Longrightarrow> js_get (js_set k v obj) k = v"
  by (simp add: js_get_def js_set_def update_conv')

lemma map_of_fold_js_set:
  "p \<noteq> ''__proto__'' \<Longrightarrow>
   map_of (fold (\<lambda>(q, h). js_set q (Str h)) fs m0) p =
     (case map_of (rev fs) p of None \<Rightarrow> map_of m0 p | Some h \<Rightarrow> Some (Str h))"
proof (induction fs arbitrary: m0)
  case Nil
  then show ?case by simp
next
  case (Cons f fs)
  then show ?case
    by (cases f) (auto simp: js_set_def update_conv' map_add_def split: option.splits)
qed

lemma make_localHashes_lookup:
  assumes "(p, h) \<in> set localFiles" "distinct (map fst localFiles)" "p \<noteq> ''__proto__''"
  shows "js_get (make_localHashes localFiles) p = Str h"
proof -
  have "map_of (rev localFiles) p = Some h"
    using assms(1,2) by (intro map_of_is_SomeI) (simp_all add: rev_map [symmetric])
  then show ?thesis
    using assms(3) by (simp add: js_get_def make_localHashes_def map_of_fold_js_set)
qed

lemma processLocalFile_unchanged:
  assumes "strict_equals (js_get (remoteHashes s) p) (js_get lh p)"
  shows "processLocalFile cfg lh p s = s\<lparr>unchanged := unchanged s @ [p]\<rparr>"
  using assms by (simp add: processLocalFile_def)

lemma processLocalFile_dry:
  assumes "\<not> strict_equals (js_get (remoteHashes s) p) (js_get lh p)" "dry_run cfg"
  shows "processLocalFile cfg lh p s =
         s\<lparr>uploaded := uploaded s @ [p], remoteHashes := js_set p (js_get lh p) (remoteHashes s)\<rparr>"
  using assms by (simp add: processLocalFile_def)

lemma processLocalFile_uploads:
  assumes "\<not> strict_equals (js_get (remoteHashes s) p) (js_get lh p)" "\<not> dry_run cfg"
    "faults s (length (calls s)) = None" "faults s (Suc (length (calls s))) = None"
  shows "uploaded (processLocalFile cfg lh p s) = uploaded s @ [p]"
    "unchanged (processLocalFile cfg lh p s) = unchanged s"
    "errors (processLocalFile cfg lh p s) = errors s"
    "remoteHashes (processLocalFile cfg lh p s) = js_set p (js_get lh p) (remoteHashes s)"
    "calls (processLocalFile cfg lh p s) =
       calls s @ [EnsureDir (posix_dirname (remote_path cfg p)), UploadFrom (remote_path cfg p)]"
  using assms by (simp_all add: processLocalFile_def client_defs)

lemma processLocalFile_fails:
  assumes "\<not> strict_equals (js_get (remoteHashes s) p) (js_get lh p)" "\<not> dry_run cfg"
    "faults s (length (calls s)) = Some e
     \<or> faults s (length (calls s)) = None \<and> faults s (Suc (length (calls s))) = Some e"
  shows "uploaded (processLocalFile cfg lh p s) = uploaded s"
    "unchanged (processLocalFile cfg lh p s) = unchanged s"
    "errors (processLocalFile cfg lh p s) =
       errors s @ [''Failed to upload '' @ p @ '': '' @ err_to_string e]"
    "remoteHashes (processLocalFile cfg lh p s) = remoteHashes s"
    "calls (processLocalFile cfg lh p s) =
       (if faults s (length (calls s)) = None
        then calls s @ [EnsureDir (posix_dirname (remote_path cfg p)), UploadFrom (remote_path cfg p)]
        else calls s @ [EnsureDir (posix_dirname (remote_path cfg p))])"
  using assms by (auto simp: processLocalFile_def client_defs push_error_def)

lemma processLocalFile_shape:
  "\<exists>us uc es.
     uploaded (processLocalFile cfg lh q s) = uploaded s @ us
     \<and> unchanged (processLocalFile cfg lh q s) = unchanged s @ uc
     \<and> errors (processLocalFile cfg lh q s) = errors s @ es
     \<and> removed (processLocalFile cfg lh q s) = removed s
     \<and> faults (processLocalFile cfg lh q s) = faults s
     \<and> set us \<subseteq> {q} \<and> set uc \<subseteq> {q}
     \<and> (remoteHashes (processLocalFile cfg lh q s) = remoteHashes s
          \<or> remoteHashes (processLocalFile cfg lh q s) = js_set q (js_get lh q) (remoteHashes s))"
proof -
  obtain r1 s1 where a: "client_ensureDir cfg q s = (r1, s1)" by (cases "client_ensureDir cfg q s")
  obtain r2 s2 where b: "client_uploadFrom cfg q s1 = (r2, s2)" by (cases "client_uploadFrom cfg q s1")
  have f1: "frame s s1" using frame_client(8) [of s cfg q] a by simp
  have f2: "frame s1 s2" using frame_client(9) [of s1 cfg q] b by simp
  note d1 = frame_deployer [OF f1] and d2 = frame_deployer [OF frame_trans [OF f1 f2]]
  show ?thesis
    using a b d1 d2
    by (auto simp: processLocalFile_def push_error_def split: sum.splits)
qed

lemma processLocalFile_other:
  assumes "q \<noteq> p"
  shows "js_get (remoteHashes (processLocalFile cfg lh q s)) p = js_get (remoteHashes s) p"
    and "p \<in> set (uploaded (processLocalFile cfg lh q s)) \<longleftrightarrow> p \<in> set (uploaded s)"
    and "p \<in> set (unchanged (processLocalFile cfg lh q s)) \<longleftrightarrow> p \<in> set (unchanged s)"
  using processLocalFile_shape [of cfg lh q s] assms
  by (auto simp: js_get_js_set_other)

lemma processLocalFile_keeps:
  "set (errors s) \<subseteq> set (errors (processLocalFile cfg lh q s))"
  "faults (processLocalFile cfg lh q s) = faults s"
  using processLocalFile_shape [of cfg lh q s] by auto

lemma upload_loop_keeps:
  "set (errors s) \<subseteq> set (errors (fold (processLocalFile cfg lh) qs s))
   \<and> faults (fold (processLocalFile cfg lh) qs s) = faults s"
proof (induction qs arbitrary: s)
  case Nil
  then show ?case by simp
next
  case (Cons q qs)
  show ?case
    using Cons.IH [of "processLocalFile cfg lh q s"]
      processLocalFile_keeps [where s = s and cfg = cfg and lh = lh and q = q]
    by auto
qed

lemma upload_loop_others:
  "p \<notin> set qs \<Longrightarrow>
   js_get (remoteHashes (fold (processLocalFile cfg lh) qs s)) p = js_get (remoteHashes s) p
   \<and> (p \<in> set (uploaded (fold (processLocalFile cfg lh) qs s)) \<longleftrightarrow> p \<in> set (uploaded s))
   \<and> (p \<in> set (unchanged (fold (processLocalFile cfg lh) qs s)) \<longleftrightarrow> p \<in> set (unchanged s))"
proof (induction qs arbitrary: s)
  case Nil
  then show ?case by simp
next
  case (Cons q qs)
  then have "q \<noteq> p" "p \<notin> set qs" by auto
  then show ?case
    using Cons.IH [of "processLocalFile cfg lh q s"]
      processLocalFile_other [where s = s and cfg = cfg and lh = lh and q = q and p = p]
    by simp
qed

lemma uploadPhase_turn:
  assumes "p \<in> set (map fst localFiles)" "distinct (map fst localFiles)"
  obtains post where
    "uploadPhase cfg localFiles s =
       fold (processLocalFile cfg (make_localHashes localFiles)) post
         (processLocalFile cfg (make_localHashes localFiles) p (uploadTurn cfg localFiles p s))"
    "p \<notin> set post" "p \<notin> set (takeWhile (\<lambda>q. q \<noteq> p) (map fst localFiles))"
proof -
  obtain pre post where sp: "map fst localFiles = pre @ p # post" "p \<notin> set pre"
    using split_list_first [OF assms(1)] by blast
  have "takeWhile (\<lambda>q. q \<noteq> p) (pre @ p # post) = pre"
    using sp(2) by (induction pre) auto
  then have tw: "takeWhile (\<lambda>q. q \<noteq> p) (map fst localFiles) = pre"
    by (simp add: sp(1))
  have np: "p \<notin> set post" using assms(2) sp(1) by simp
  have "uploadPhase cfg localFiles s =
       fold (processLocalFile cfg (make_localHashes localFiles)) post
         (processLocalFile cfg (make_localHashes localFiles) p (uploadTurn cfg localFiles p s))"
    by (simp add: uploadPhase_def uploadTurn_def tw) (simp add: sp(1))
  then show ?thesis using that np sp(2) tw by simp
qed


lemma denied_not_transient: "\<not> isConnectionError denied"
proof -
  have "sublist ''connection'' xs \<Longrightarrow> CHR ''c'' \<in> set xs" for xs
    by (auto simp: sublist_def)
  then have "\<not> sublist ''connection'' ''Permission denied''" by fastforce
  then show ?thesis by (simp add: isConnectionError_def denied_def server_error_def)
qed

text \<open>
  C4 as stated fails: in a run without clear-destination, a new file whose upload the
  server refuses (an error that is not connection-classified, so that no retry policy
  applies) is recorded neither in \<^verbatim>\<open>unchanged\<close> nor in \<^verbatim>\<open>uploaded\<close>, and the manifest
  has no entry for it.
\<close>

theorem upload_failure_counterexample:
  "\<not> clear_destination plain_config \<and> \<not> isConnectionError denied
   \<and> faults denied_upload_world 3 = Some denied
   \<and> calls (deploy plain_config (Inr [(''a.txt'', ''h9'')]) denied_upload_world) ! 3
       = UploadFrom ''/public_html/a.txt''
   \<and> uploaded (deploy plain_config (Inr [(''a.txt'', ''h9'')]) denied_upload_world) = []
   \<and> unchanged (deploy plain_config (Inr [(''a.txt'', ''h9'')]) denied_upload_world) = []
   \<and> errors (deploy plain_config (Inr [(''a.txt'', ''h9'')]) denied_upload_world)
       = [''Failed to upload a.txt: FTPError: Permission denied'']
   \<and> js_get (remoteHashes (deploy plain_config (Inr [(''a.txt'', ''h9'')]) denied_upload_world))
        ''a.txt'' = Undefined"
proof -
  have "uploaded (deploy plain_config (Inr [(''a.txt'', ''h9'')]) denied_upload_world) = []
   \<and> calls (deploy plain_config (Inr [(''a.txt'', ''h9'')]) denied_upload_world) ! 3
       = UploadFrom ''/public_html/a.txt''
   \<and> unchanged (deploy plain_config (Inr [(''a.txt'', ''h9'')]) denied_upload_world) = []
   \<and> errors (deploy plain_config (Inr [(''a.txt'', ''h9'')]) denied_upload_world)
       = [''Failed to upload a.txt: FTPError: Permission denied'']
   \<and> js_get (remoteHashes (deploy plain_config (Inr [(''a.txt'', ''h9'')]) denied_upload_world))
        ''a.txt'' = Undefined"
    by (simp add: denied_upload_world_def denied_def server_error_def quiet_world_def
        plain_config_def deploy_defs client_defs path_defs err_to_string_def Let_def)
  then show ?thesis
    using denied_not_transient
    by (simp add: plain_config_def denied_upload_world_def)
qed

text \<open>
  C4, amended. The upload loop is entered with empty \<^verbatim>\<open>uploaded\<close> and \<^verbatim>\<open>unchanged\<close>
  lists, as in every run; the local paths are distinct, and \<open>p\<close>, with fresh digest
  \<open>h\<close>, is one of them and is not \<^verbatim>\<open>__proto__\<close>. The turn of \<open>p\<close> comes in the state
  \<open>uploadTurn cfg localFiles p s\<close>.

  \<^item> When the loaded manifest holds the string \<open>h\<close> for \<open>p\<close>: \<open>p\<close> ends in
    \<^verbatim>\<open>unchanged\<close>, not in \<^verbatim>\<open>uploaded\<close>, its entry stays \<open>h\<close>, and its turn changes
    nothing but the list \<^verbatim>\<open>unchanged\<close>: it issues no transport call.
  \<^item> Otherwise, in a dry run or when neither the ensure-directory call nor the upload
    call of its turn raises: \<open>p\<close> ends in \<^verbatim>\<open>uploaded\<close>, not in \<^verbatim>\<open>unchanged\<close>, the
    manifest maps \<open>p\<close> to \<open>h\<close>, and outside a dry run its turn issues exactly these two
    calls.
  \<^item> Otherwise, outside a dry run, when the first of the two calls to raise raises an
    error \<open>e\<close> that is not connection-classified: \<open>p\<close> ends in neither list, its
    manifest entry is the loaded one, and its turn appends
    \<^verbatim>\<open>Failed to upload p: e\<close> to \<^verbatim>\<open>errors\<close>, where the message stays.

  (The loop does not retry a connection-classified failure of these calls; that case is
  left open here.)
\<close>

theorem uploadPhase_decides_by_hash:
  assumes "(p, h) \<in> set localFiles" and "distinct (map fst localFiles)"
    and "p \<noteq> ''__proto__''" and "uploaded s = []" and "unchanged s = []"
  shows "(js_get (remoteHashes s) p = Str h \<longrightarrow>
            p \<in> set (unchanged (uploadPhase cfg localFiles s))
            \<and> p \<notin> set (uploaded (uploadPhase cfg localFiles s))
            \<and> js_get (remoteHashes (uploadPhase cfg localFiles s)) p = Str h
            \<and> processLocalFile cfg (make_localHashes localFiles) p (uploadTurn cfg localFiles p s)
                = (uploadTurn cfg localFiles p s)
                    \<lparr>unchanged := unchanged (uploadTurn cfg localFiles p s) @ [p]\<rparr>)
       \<and> (js_get (remoteHashes s) p \<noteq> Str h \<longrightarrow>
            (dry_run cfg
               \<or> faults s (length (calls (uploadTurn cfg localFiles p s))) = None
                  \<and> faults s (Suc (length (calls (uploadTurn cfg localFiles p s)))) = None \<longrightarrow>
               p \<in> set (uploaded (uploadPhase cfg localFiles s))
               \<and> p \<notin> set (unchanged (uploadPhase cfg localFiles s))
               \<and> js_get (remoteHashes (uploadPhase cfg localFiles s)) p = Str h
               \<and> calls (processLocalFile cfg (make_localHashes localFiles) p
                           (uploadTurn cfg localFiles p s))
                   = calls (uploadTurn cfg localFiles p s)
                     @ (if dry_run cfg then []
                        else [EnsureDir (posix_dirname (remote_path cfg p)),
                              UploadFrom (remote_path cfg p)]))
            \<and> (\<forall>e. \<not> dry_run cfg \<and> \<not> isConnectionError e
                    \<and> (faults s (length (calls (uploadTurn cfg localFiles p s))) = Some e
                        \<or> faults s (length (calls (uploadTurn cfg localFiles p s))) = None
                           \<and> faults s (Suc (length (calls (uploadTurn cfg localFiles p s)))) = Some e)
                  \<longrightarrow>
                    p \<notin> set (uploaded (uploadPhase cfg localFiles s))
                    \<and> p \<notin> set (unchanged (uploadPhase cfg localFiles s))
                    \<and> js_get (remoteHashes (uploadPhase cfg localFiles s)) p
                        = js_get (remoteHashes s) p
                    \<and> errors (processLocalFile cfg (make_localHashes localFiles) p
                                (uploadTurn cfg localFiles p s))
                        = errors (uploadTurn cfg localFiles p s)
                          @ [''Failed to upload '' @ p @ '': '' @ err_to_string e]
                    \<and> ''Failed to upload '' @ p @ '': '' @ err_to_string e
                        \<in> set (errors (uploadPhase cfg localFiles s))))"
proof -
  let ?lh = "make_localHashes localFiles"
  let ?T = "uploadTurn cfg localFiles p s"
  let ?T1 = "processLocalFile cfg ?lh p ?T"
  let ?F = "uploadPhase cfg localFiles s"
  have mem: "p \<in> set (map fst localFiles)" using assms(1) by force
  obtain post where F: "?F = fold (processLocalFile cfg ?lh) post ?T1"
    and post: "p \<notin> set post" and pre: "p \<notin> set (takeWhile (\<lambda>q. q \<noteq> p) (map fst localFiles))"
    using uploadPhase_turn [OF mem assms(2), of cfg s] by blast
  have lh: "js_get ?lh p = Str h" using assms(1,2,3) by (rule make_localHashes_lookup)
  have T: "js_get (remoteHashes ?T) p = js_get (remoteHashes s) p"
    "p \<notin> set (uploaded ?T)" "p \<notin> set (unchanged ?T)" "faults ?T = faults s"
    using upload_loop_others [OF pre, of cfg ?lh s] upload_loop_keeps [of s cfg ?lh]
      assms(4,5)
    by (simp_all add: uploadTurn_def)
  note after = upload_loop_others [OF post, of cfg ?lh ?T1, folded F]
  note keeps = upload_loop_keeps [of ?T1 cfg ?lh post, folded F]
  have eq: "strict_equals (js_get (remoteHashes ?T) p) (js_get ?lh p)
       \<longleftrightarrow> js_get (remoteHashes s) p = Str h"
    by (auto simp: strict_equals_def lh T(1))
  have A: "js_get (remoteHashes s) p = Str h \<Longrightarrow>
       p \<in> set (unchanged ?F) \<and> p \<notin> set (uploaded ?F) \<and> js_get (remoteHashes ?F) p = Str h
       \<and> ?T1 = ?T\<lparr>unchanged := unchanged ?T @ [p]\<rparr>"
  proof -
    assume m: "js_get (remoteHashes s) p = Str h"
    have s1: "?T1 = ?T\<lparr>unchanged := unchanged ?T @ [p]\<rparr>"
      using m eq by (intro processLocalFile_unchanged) simp
    show ?thesis
      using after T m by (simp add: s1 [symmetric]) (simp add: s1)
  qed
  have B: "js_get (remoteHashes s) p \<noteq> Str h \<Longrightarrow>
       dry_run cfg \<or> faults s (length (calls ?T)) = None \<and> faults s (Suc (length (calls ?T))) = None \<Longrightarrow>
       p \<in> set (uploaded ?F) \<and> p \<notin> set (unchanged ?F) \<and> js_get (remoteHashes ?F) p = Str h
       \<and> calls ?T1 = calls ?T @ (if dry_run cfg then []
                        else [EnsureDir (posix_dirname (remote_path cfg p)),
                              UploadFrom (remote_path cfg p)])"
  proof -
    assume m: "js_get (remoteHashes s) p \<noteq> Str h"
      and ok: "dry_run cfg \<or> faults s (length (calls ?T)) = None
                 \<and> faults s (Suc (length (calls ?T))) = None"
    have ne: "\<not> strict_equals (js_get (remoteHashes ?T) p) (js_get ?lh p)" using m eq by simp
    have u: "uploaded ?T1 = uploaded ?T @ [p] \<and> unchanged ?T1 = unchanged ?T
      \<and> remoteHashes ?T1 = js_set p (js_get ?lh p) (remoteHashes ?T)
      \<and> calls ?T1 = calls ?T @ (if dry_run cfg then []
                        else [EnsureDir (posix_dirname (remote_path cfg p)),
                              UploadFrom (remote_path cfg p)])"
    proof (cases "dry_run cfg")
      case True
      show ?thesis using True by (simp add: processLocalFile_dry [OF ne True])
    next
      case False
      then have f: "faults ?T (length (calls ?T)) = None" "faults ?T (Suc (length (calls ?T))) = None"
        using ok T(4) by simp_all
      show ?thesis using False processLocalFile_uploads [OF ne False f] by simp
    qed
    have "js_get (remoteHashes ?T1) p = Str h"
      using assms(3) u by (simp add: js_get_js_set_same lh)
    then show ?thesis using after T u by simp
  qed
  have C: "js_get (remoteHashes s) p \<noteq> Str h \<Longrightarrow> \<not> dry_run cfg \<Longrightarrow>
       faults s (length (calls ?T)) = Some e
         \<or> faults s (length (calls ?T)) = None \<and> faults s (Suc (length (calls ?T))) = Some e \<Longrightarrow>
       p \<notin> set (uploaded ?F) \<and> p \<notin> set (unchanged ?F)
       \<and> js_get (remoteHashes ?F) p = js_get (remoteHashes s) p
       \<and> errors ?T1 = errors ?T @ [''Failed to upload '' @ p @ '': '' @ err_to_string e]
       \<and> ''Failed to upload '' @ p @ '': '' @ err_to_string e \<in> set (errors ?F)" for e
  proof -
    assume m: "js_get (remoteHashes s) p \<noteq> Str h" and d: "\<not> dry_run cfg"
      and f: "faults s (length (calls ?T)) = Some e
         \<or> faults s (length (calls ?T)) = None \<and> faults s (Suc (length (calls ?T))) = Some e"
    have ne: "\<not> strict_equals (js_get (remoteHashes ?T) p) (js_get ?lh p)" using m eq by simp
    have f': "faults ?T (length (calls ?T)) = Some e
         \<or> faults ?T (length (calls ?T)) = None \<and> faults ?T (Suc (length (calls ?T))) = Some e"
      using f T(4) by simp
    note u = processLocalFile_fails [OF ne d f']
    have "''Failed to upload '' @ p @ '': '' @ err_to_string e \<in> set (errors ?F)"
      using keeps u(3) by auto
    then show ?thesis using after T u(1-4) by simp
  qed
  show ?thesis using A B C by blast
qed


theorem uploadPhase_decides_by_hash_witness:
  "distinct (map fst [(''a.txt'', ''h1''), (''b/c.txt'', ''h3'')])
   \<and> uploaded loaded_sample = [] \<and> unchanged loaded_sample = []
   \<and> js_get (remoteHashes loaded_sample) ''a.txt'' = Str ''h1''
   \<and> ''a.txt'' \<in> set (unchanged (uploadPhase plain_config [(''a.txt'', ''h1''), (''b/c.txt'', ''h3'')] loaded_sample))
   \<and> ''a.txt'' \<notin> set (uploaded (uploadPhase plain_config [(''a.txt'', ''h1''), (''b/c.txt'', ''h3'')] loaded_sample))
   \<and> js_get (remoteHashes loaded_sample) ''b/c.txt'' = Undefined
   \<and> calls (uploadTurn plain_config [(''a.txt'', ''h1''), (''b/c.txt'', ''h3'')] ''b/c.txt'' loaded_sample) = []
   \<and> faults loaded_sample 0 = None \<and> faults loaded_sample 1 = None
   \<and> ''b/c.txt'' \<in> set (uploaded (uploadPhase plain_config [(''a.txt'', ''h1''), (''b/c.txt'', ''h3'')] loaded_sample))
   \<and> ''b/c.txt'' \<notin> set (unchanged (uploadPhase plain_config [(''a.txt'', ''h1''), (''b/c.txt'', ''h3'')] loaded_sample))
   \<and> js_get (remoteHashes (uploadPhase plain_config [(''a.txt'', ''h1''), (''b/c.txt'', ''h3'')] loaded_sample)) ''b/c.txt''
       = Str ''h3''
   \<and> faults denied_sample 0 = None \<and> faults denied_sample 1 = Some denied
   \<and> \<not> isConnectionError denied
   \<and> ''b/c.txt'' \<notin> set (uploaded (uploadPhase plain_config [(''a.txt'', ''h1''), (''b/c.txt'', ''h3'')] denied_sample))
   \<and> ''b/c.txt'' \<notin> set (unchanged (uploadPhase plain_config [(''a.txt'', ''h1''), (''b/c.txt'', ''h3'')] denied_sample))
   \<and> js_get (remoteHashes (uploadPhase plain_config [(''a.txt'', ''h1''), (''b/c.txt'', ''h3'')] denied_sample)) ''b/c.txt''
       = Undefined
   \<and> ''Failed to upload b/c.txt: FTPError: Permission denied''
       \<in> set (errors (uploadPhase plain_config [(''a.txt'', ''h1''), (''b/c.txt'', ''h3'')] denied_sample))"
proof -
  let ?fs = "[(''a.txt'', ''h1''), (''b/c.txt'', ''h3'')]"
  have a: "(''a.txt'', ''h1'') \<in> set ?fs" and b: "(''b/c.txt'', ''h3'') \<in> set ?fs"
    and d: "distinct (map fst ?fs)" and np: "''a.txt'' \<noteq> ''__proto__''" "''b/c.txt'' \<noteq> ''__proto__''"
    by simp_all
  have e: "uploaded loaded_sample = []" "unchanged loaded_sample = []"
    "uploaded denied_sample = []" "unchanged denied_sample = []"
    by (simp_all add: loaded_sample_def denied_sample_def)
  have m: "js_get (remoteHashes loaded_sample) ''a.txt'' = Str ''h1''"
    "js_get (remoteHashes loaded_sample) ''b/c.txt'' = Undefined"
    "js_get (remoteHashes denied_sample) ''b/c.txt'' = Undefined"
    by (simp_all add: loaded_sample_def denied_sample_def js_get_def object_prototype_names_def)
  have lh: "make_localHashes ?fs = [(''a.txt'', Str ''h1''), (''b/c.txt'', Str ''h3'')]"
    by (simp add: make_localHashes_def js_set_def)
  have t: "calls (uploadTurn plain_config ?fs ''b/c.txt'' loaded_sample) = []"
    "calls (uploadTurn plain_config ?fs ''b/c.txt'' denied_sample) = []"
    by (simp_all add: uploadTurn_def lh processLocalFile_def strict_equals_def js_get_def
        loaded_sample_def denied_sample_def sample_world_def)
  have f: "faults loaded_sample 0 = None" "faults loaded_sample 1 = None"
    "faults denied_sample 0 = None" "faults denied_sample 1 = Some denied"
    by (simp_all add: loaded_sample_def denied_sample_def sample_world_def)
  have x: "err_to_string denied = ''FTPError: Permission denied''"
    by (simp add: err_to_string_def denied_def server_error_def)
  have dr: "\<not> dry_run plain_config" by (simp add: plain_config_def)
  have A: "''a.txt'' \<in> set (unchanged (uploadPhase plain_config ?fs loaded_sample))
      \<and> ''a.txt'' \<notin> set (uploaded (uploadPhase plain_config ?fs loaded_sample))"
    using uploadPhase_decides_by_hash [OF a d np(1) e(1,2), of plain_config] m(1) by simp
  have B: "''b/c.txt'' \<in> set (uploaded (uploadPhase plain_config ?fs loaded_sample))
      \<and> ''b/c.txt'' \<notin> set (unchanged (uploadPhase plain_config ?fs loaded_sample))
      \<and> js_get (remoteHashes (uploadPhase plain_config ?fs loaded_sample)) ''b/c.txt'' = Str ''h3''"
    using uploadPhase_decides_by_hash [OF b d np(2) e(1,2), of plain_config] m(2) f(1,2)
    by (simp add: t)
  have C: "''b/c.txt'' \<notin> set (uploaded (uploadPhase plain_config ?fs denied_sample))
      \<and> ''b/c.txt'' \<notin> set (unchanged (uploadPhase plain_config ?fs denied_sample))
      \<and> js_get (remoteHashes (uploadPhase plain_config ?fs denied_sample)) ''b/c.txt'' = Undefined
      \<and> ''Failed to upload b/c.txt: FTPError: Permission denied''
          \<in> set (errors (uploadPhase plain_config ?fs denied_sample))"
    using uploadPhase_decides_by_hash [OF b d np(2) e(3,4), of plain_config] m(3) f(3,4)
      denied_not_transient dr
    by (simp add: t x)
  show ?thesis
    using d e(1,2) m(1,2) t(1) f denied_not_transient A B C by simp
qed

section \<open>Remote scan and directory removal: frames\<close>

declare getRemoteFiles.simps [simp del]

lemma getRemoteFiles_frame:
  "frame w (snd (getRemoteFiles cfg rel items w))"
  "frame w (snd (getRemoteFiles_items cfg rel items w))"
proof (induction cfg rel items w and cfg rel items w rule: getRemoteFiles_getRemoteFiles_items.induct)
  case (1 cfg rel items w)
  obtain r w1 where i: "issue (List (remote_path cfg rel)) w = (r, w1)"
    by (cases "issue (List (remote_path cfg rel)) w")
  have f: "frame w w1" using frame_client(1) [of w "List (remote_path cfg rel)"] i by simp
  show ?case
  proof (cases r)
    case None
    then show ?thesis using 1 [OF i [symmetric] None] i f
      by (auto simp: getRemoteFiles.simps intro: frame_trans)
  next
    case (Some e)
    then show ?thesis using i f by (simp add: getRemoteFiles.simps)
  qed
next
  case (2 cfg rel w)
  then show ?case by simp
next
  case (3 cfg rel n sub items w)
  show ?case
  proof (cases "n = ''.'' \<or> n = ''..''")
    case True
    then show ?thesis using 3(1) by auto
  next
    case False
    obtain a w1 where g: "getRemoteFiles cfg (rel_join rel n) sub w = (a, w1)"
      by (cases "getRemoteFiles cfg (rel_join rel n) sub w")
    have f1: "frame w w1" using 3(2) [OF False] g by simp
    have f2: "frame w1 (snd (getRemoteFiles_items cfg rel items w1))"
      using 3(3) [OF False g [symmetric]] by simp
    show ?thesis using False g frame_trans [OF f1 f2] by (auto split: prod.splits)
  qed
next
  case (4 cfg rel n items w)
  then show ?case by (auto split: prod.splits)
next
  case (5 cfg rel n items w)
  then show ?case by simp
qed

lemma scanRemote_frame [simp]: "frame w (snd (scanRemote cfg w))"
  by (simp add: scanRemote_def getRemoteFiles_frame(1))


declare removeEmptyDirectories_in.simps [simp del]

lemma removeEmptyDirectories_in_frame:
  "frame w (snd (removeEmptyDirectories_in cfg rel preserveRoot items w))"
  "frame w (snd (removeEmptyDirectories_each cfg rel items w))"
proof (induction cfg rel preserveRoot items w and cfg rel items w
    rule: removeEmptyDirectories_in_removeEmptyDirectories_each.induct)
  case (1 cfg rel preserveRoot items w)
  let ?l = "List (remote_path cfg rel)"
  obtain r w1 where i: "issue ?l w = (r, w1)" by (cases "issue ?l w")
  have f1: "frame w w1" using frame_client(1) [of w ?l] i by simp
  show ?case
  proof (cases r)
    case (Some e)
    then show ?thesis using i f1 by (simp add: removeEmptyDirectories_in.simps)
  next
    case None
    obtain u w2 where e: "removeEmptyDirectories_each cfg rel items w1 = (u, w2)"
      by (cases "removeEmptyDirectories_each cfg rel items w1")
    have f2: "frame w w2" using 1 [OF i [symmetric] None] e f1 by (auto intro: frame_trans)
    obtain r3 w3 where j: "issue ?l w2 = (r3, w3)" by (cases "issue ?l w2")
    have f3: "frame w w3" using frame_client(1) [of w2 ?l] j f2 by (auto intro: frame_trans)
    let ?d = "RemoveDir (remote_path cfg rel)"
    obtain r4 w4 where k: "issue ?d w3 = (r4, w4)" by (cases "issue ?d w3")
    have f4: "frame w w4" using frame_client(1) [of w3 ?d] k f3 by (auto intro: frame_trans)
    show ?thesis
      using i None e j k f2 f3 f4
      by (auto simp: removeEmptyDirectories_in.simps split: option.splits)
  qed
next
  case (2 cfg rel w)
  then show ?case by simp
next
  case (3 cfg rel n sub items w)
  show ?case
  proof (cases "n = ''.'' \<or> n = ''..'' \<or> shouldPreserve (preserve cfg) (rel_join rel n)")
    case True
    then show ?thesis using 3(1) by (auto split: prod.splits)
  next
    case False
    obtain a w1 where g: "removeEmptyDirectories_in cfg (rel_join rel n) False sub w = (a, w1)"
      by (cases "removeEmptyDirectories_in cfg (rel_join rel n) False sub w")
    have f1: "frame w w1" using 3(2) [OF False] g by simp
    have f2: "frame w1 (snd (removeEmptyDirectories_each cfg rel items w1))"
      using 3(3) [OF False g [symmetric]] by simp
    show ?thesis using False g frame_trans [OF f1 f2] by (auto split: prod.splits)
  qed
next
  case (4 cfg rel n items w)
  then show ?case by (auto split: prod.splits)
next
  case (5 cfg rel n items w)
  then show ?case by (auto split: prod.splits)
qed

lemma removeEmptyDirectories_frame [simp]: "frame w (removeEmptyDirectories cfg w)"
proof -
  have "frame w (snd (removeEmptyDirectories_in cfg [] True (tree w) w))"
    by (rule removeEmptyDirectories_in_frame)
  then show ?thesis
    by (auto simp: removeEmptyDirectories_def frame_def split: prod.splits option.splits)
qed


section \<open>The clean phase\<close>

section \<open>Reading without faults\<close>

lemma read_only_refl [simp]: "read_only w w"
  by (simp add: read_only_def)

lemma read_only_trans: "read_only w w' \<Longrightarrow> read_only w' w'' \<Longrightarrow> read_only w w''"
  unfolding read_only_def
  by (elim conjE exE) (auto intro: frame_trans)

lemma mutating_simps [simp]:
  "\<not> mutating Access" "\<not> mutating Close" "\<not> mutating (List p)" "\<not> mutating (Size p)"
  "\<not> mutating (DownloadTo p)" "mutating (UploadFrom p)" "mutating (EnsureDir p)"
  "mutating (Remove p)" "mutating (RemoveDir p)"
  by (simp_all add: mutating_def)

lemma read_only_issue: "\<not> mutating c \<Longrightarrow> read_only w (snd (issue c w))"
  by (simp add: read_only_def frame_def issue_def)

lemma read_only_client [simp]:
  "read_only w (snd (client_access w))"
  "read_only w (client_close w)" "read_only w (snd (reconnect_client w))"
  "read_only w (snd (client_size_hashfile cfg w))"
  "read_only w (snd (client_downloadTo_hashfile cfg w))"
  by (auto simp: read_only_def frame_def client_defs split: prod.splits option.splits)

lemma no_faults_frame: "frame w w' \<Longrightarrow> no_faults w \<Longrightarrow> no_faults w'"
  by (simp add: frame_def no_faults_def)

lemma issue_no_faults: "no_faults w \<Longrightarrow> fst (issue c w) = None"
  by (simp add: issue_def no_faults_def)

lemma getRemoteFiles_read_only:
  "read_only w (snd (getRemoteFiles cfg rel items w))"
  "read_only w (snd (getRemoteFiles_items cfg rel items w))"
proof (induction cfg rel items w and cfg rel items w rule: getRemoteFiles_getRemoteFiles_items.induct)
  case (1 cfg rel items w)
  obtain r w1 where i: "issue (List (remote_path cfg rel)) w = (r, w1)"
    by (cases "issue (List (remote_path cfg rel)) w")
  have f: "read_only w w1" using read_only_issue [of "List (remote_path cfg rel)" w] i by simp
  show ?case
  proof (cases r)
    case None
    then show ?thesis using 1 [OF i [symmetric] None] i f
      by (auto simp: getRemoteFiles.simps intro: read_only_trans)
  next
    case (Some e)
    then show ?thesis using i f by (simp add: getRemoteFiles.simps)
  qed
next
  case (2 cfg rel w)
  then show ?case by simp
next
  case (3 cfg rel n sub items w)
  show ?case
  proof (cases "n = ''.'' \<or> n = ''..''")
    case True
    then show ?thesis using 3(1) by auto
  next
    case False
    obtain a w1 where g: "getRemoteFiles cfg (rel_join rel n) sub w = (a, w1)"
      by (cases "getRemoteFiles cfg (rel_join rel n) sub w")
    have f1: "read_only w w1" using 3(2) [OF False] g by simp
    have f2: "read_only w1 (snd (getRemoteFiles_items cfg rel items w1))"
      using 3(3) [OF False g [symmetric]] by simp
    show ?thesis using False g read_only_trans [OF f1 f2] by (auto split: prod.splits)
  qed
next
  case (4 cfg rel n items w)
  then show ?case by (auto split: prod.splits)
next
  case (5 cfg rel n items w)
  then show ?case by simp
qed

lemma getRemoteFiles_no_faults:
  "no_faults w \<Longrightarrow> fst (getRemoteFiles cfg rel items w) = remote_listing rel items"
  "no_faults w \<Longrightarrow> fst (getRemoteFiles_items cfg rel items w) = remote_listing rel items"
proof (induction cfg rel items w and cfg rel items w rule: getRemoteFiles_getRemoteFiles_items.induct)
  case (1 cfg rel items w)
  obtain r w1 where i: "issue (List (remote_path cfg rel)) w = (r, w1)"
    by (cases "issue (List (remote_path cfg rel)) w")
  have r: "r = None" using issue_no_faults [OF 1(2), of "List (remote_path cfg rel)"] i by simp
  have n: "no_faults w1"
    using frame_client(1) [of w "List (remote_path cfg rel)"] i 1(2) by (auto intro: no_faults_frame)
  show ?case using 1(1) [OF i [symmetric] r n] i r by (simp add: getRemoteFiles.simps)
next
  case (2 cfg rel w)
  then show ?case by simp
next
  case (3 cfg rel n sub items w)
  show ?case
  proof (cases "n = ''.'' \<or> n = ''..''")
    case True
    then show ?thesis using 3(1) 3(4) by auto
  next
    case False
    obtain a w1 where g: "getRemoteFiles cfg (rel_join rel n) sub w = (a, w1)"
      by (cases "getRemoteFiles cfg (rel_join rel n) sub w")
    have a: "a = remote_listing (rel_join rel n) sub" using 3(2) [OF False 3(4)] g by simp
    have "read_only w w1" using getRemoteFiles_read_only(1) [of w cfg "rel_join rel n" sub] g by simp
    then have n1: "no_faults w1" using 3(4) by (auto simp: read_only_def intro: no_faults_frame)
    have "fst (getRemoteFiles_items cfg rel items w1) = remote_listing rel items"
      using 3(3) [OF False g [symmetric] n1] by simp
    then show ?thesis using False g a by (auto split: prod.splits)
  qed
next
  case (4 cfg rel n items w)
  then show ?case by (auto split: prod.splits)
next
  case (5 cfg rel n items w)
  then show ?case by simp
qed

lemma scanRemote_no_faults:
  "no_faults w \<Longrightarrow> fst (scanRemote cfg w) = remote_listing [] (tree w)"
  by (simp add: scanRemote_def getRemoteFiles_no_faults(1))

lemma scanRemote_read_only [simp]: "read_only w (snd (scanRemote cfg w))"
  by (simp add: scanRemote_def getRemoteFiles_read_only(1))


section \<open>Retry, load and save without faults\<close>

lemma executeWithRetry_first_success:
  assumes "1 \<le> retries" "fst (operation w) = Inr v"
  shows "executeWithRetry cfg operation retries w = operation w"
  using assms unfolding executeWithRetry_def
  by (subst executeWithRetry_from.simps) (auto split: prod.splits sum.splits)

lemma executeWithRetry_none:
  assumes "retries < 1"
  shows "executeWithRetry cfg operation retries w = (Inl (generic_error retries), w)"
  using assms unfolding executeWithRetry_def
  by (subst executeWithRetry_from.simps) simp

lemma default_retries_pos: "0 \<le> max_retries cfg \<Longrightarrow> 1 \<le> default_retries cfg"
  by (simp add: default_retries_def)

lemma no_faults_ops:
  assumes "no_faults w"
  shows "client_access w = (Inr (), w\<lparr>calls := calls w @ [Access], connected := True\<rparr>)"
    "client_ensureDir cfg p w = (Inr (), w\<lparr>calls := calls w @ [EnsureDir (posix_dirname (remote_path cfg p))],
        tree := tree_ensure_dir (butlast (split_on CHR ''/'' p)) (tree w)\<rparr>)"
    "client_remove cfg p w = (Inr (), w\<lparr>calls := calls w @ [Remove (remote_path cfg p)],
        tree := tree_remove_file (split_on CHR ''/'' p) (tree w)\<rparr>)"
    "client_uploadFrom_hashfile cfg m w = (Inr (), w\<lparr>calls := calls w @ [UploadFrom (remoteHashFile cfg)],
        hashfile := Some m\<rparr>)"
    "fst (client_uploadFrom cfg p w) = Inr ()"
    "fst (client_size_hashfile cfg w) = (case hashfile w of None \<Rightarrow> Inl (server_error ''File not found'') | Some t \<Rightarrow> Inr ())"
    "fst (client_downloadTo_hashfile cfg w) = (case hashfile w of None \<Rightarrow> Inl (server_error ''File not found'') | Some t \<Rightarrow> Inr t)"
  using assms by (simp_all add: client_defs no_faults_def split: option.splits)

lemma executeWithRetry_read_only:
  assumes "\<And>w. read_only w (snd (operation w))"
  shows "read_only w (snd (executeWithRetry cfg operation retries w))"
proof (rule executeWithRetry_invariant [where P = "read_only w"])
  show "read_only w (snd (operation w'))" if "read_only w w'" for w'
    using that assms [of w'] by (rule read_only_trans)
  show "read_only w (snd (reconnect_client w'))" if "read_only w w'" for w'
    using that read_only_client(3) [of w'] by (rule read_only_trans)
qed simp

lemma remoteFileExists_read_only [simp]: "read_only w (snd (remoteFileExists cfg w))"
proof -
  obtain r w1 where s: "client_size_hashfile cfg w = (r, w1)" by (cases "client_size_hashfile cfg w")
  have "read_only w (snd (client_size_hashfile cfg w))" by simp
  then have "read_only w w1" unfolding s by simp
  then show ?thesis using s by (cases r) (simp_all add: remoteFileExists_def)
qed

lemma loadRemoteHashes_read_only [simp]: "read_only w (snd (loadRemoteHashes cfg w))"
proof -
  obtain b w1 where e: "remoteFileExists cfg w = (b, w1)" by (cases "remoteFileExists cfg w")
  have "read_only w (snd (remoteFileExists cfg w))" by simp
  then have r1: "read_only w w1" unfolding e by simp
  have r2: "read_only w1 (snd (executeWithRetry cfg (client_downloadTo_hashfile cfg) (default_retries cfg) w1))"
    by (rule executeWithRetry_read_only) simp
  show ?thesis
    using e r1 read_only_trans [OF r1 r2]
    by (cases b) (auto simp: loadRemoteHashes_def split: prod.splits sum.splits)
qed

lemma loadRemoteHashes_no_faults:
  assumes "no_faults w" "1 \<le> default_retries cfg"
  shows "fst (loadRemoteHashes cfg w) = stored_manifest w"
proof (cases "hashfile w")
  case None
  then show ?thesis
    using no_faults_ops(6) [OF assms(1), of cfg]
    by (auto simp: loadRemoteHashes_def remoteFileExists_def stored_manifest_def
        split: prod.splits sum.splits bool.splits)
next
  case (Some t)
  obtain r w1 where s: "client_size_hashfile cfg w = (r, w1)" by (cases "client_size_hashfile cfg w")
  have r: "r = Inr ()" using no_faults_ops(6) [OF assms(1), of cfg] s Some by simp
  have "read_only w (snd (client_size_hashfile cfg w))" by simp
  then have ro: "read_only w w1" unfolding s by simp
  then have n1: "no_faults w1" and h1: "hashfile w1 = Some t"
    using assms(1) Some by (auto simp: read_only_def intro: no_faults_frame)
  have d: "fst (client_downloadTo_hashfile cfg w1) = Inr t"
    using no_faults_ops(7) [OF n1, of cfg] h1 by simp
  have "executeWithRetry cfg (client_downloadTo_hashfile cfg) (default_retries cfg) w1
        = client_downloadTo_hashfile cfg w1"
    using assms(2) d by (rule executeWithRetry_first_success)
  then show ?thesis
    using s r d Some
    by (auto simp: loadRemoteHashes_def remoteFileExists_def stored_manifest_def
        split: prod.splits sum.splits bool.splits)
qed

lemma saveRemoteHashes_no_faults:
  assumes "no_faults w" "1 \<le> default_retries cfg" "tmp_write_error w = None"
  shows "saveRemoteHashes cfg m w = (Inr (), w\<lparr>calls := calls w @ [UploadFrom (remoteHashFile cfg)],
        hashfile := Some (json_stringify m)\<rparr>)"
proof -
  have "executeWithRetry cfg (client_uploadFrom_hashfile cfg (json_stringify m)) (default_retries cfg) w
      = client_uploadFrom_hashfile cfg (json_stringify m) w"
    using assms(2) no_faults_ops(4) [OF assms(1), of cfg "json_stringify m"]
    by (intro executeWithRetry_first_success [where v = "()"]) simp_all
  then show ?thesis
    using assms(3) no_faults_ops(4) [OF assms(1), of cfg "json_stringify m"]
    by (simp add: saveRemoteHashes_def)
qed


section \<open>Dry run: nothing is changed\<close>

lemma remote_untouched_refl [simp]: "remote_untouched w w"
  by (simp add: remote_untouched_def)

lemma remote_untouched_trans:
  "remote_untouched w w' \<Longrightarrow> remote_untouched w' w'' \<Longrightarrow> remote_untouched w w''"
  unfolding remote_untouched_def by (elim conjE exE) auto

lemma read_only_untouched: "read_only w w' \<Longrightarrow> remote_untouched w w'"
  by (auto simp: read_only_def remote_untouched_def frame_def)

lemma remote_untouched_stats:
  "remote_untouched w (s\<lparr>uploaded := a\<rparr>) = remote_untouched w s"
  "remote_untouched w (s\<lparr>removed := b\<rparr>) = remote_untouched w s"
  "remote_untouched w (s\<lparr>unchanged := c\<rparr>) = remote_untouched w s"
  "remote_untouched w (s\<lparr>errors := d\<rparr>) = remote_untouched w s"
  "remote_untouched w (s\<lparr>remoteHashes := e\<rparr>) = remote_untouched w s"
  by (simp_all add: remote_untouched_def)

lemma removeEmptyDirectories_in_dry:
  "dry_run cfg \<Longrightarrow>
     fst (removeEmptyDirectories_in cfg rel preserveRoot items w) = Some items
     \<and> read_only w (snd (removeEmptyDirectories_in cfg rel preserveRoot items w))"
  "dry_run cfg \<Longrightarrow>
     fst (removeEmptyDirectories_each cfg rel items w) = items
     \<and> read_only w (snd (removeEmptyDirectories_each cfg rel items w))"
proof (induction cfg rel preserveRoot items w and cfg rel items w
    rule: removeEmptyDirectories_in_removeEmptyDirectories_each.induct)
  case (1 cfg rel preserveRoot items w)
  let ?l = "List (remote_path cfg rel)"
  obtain r w1 where i: "issue ?l w = (r, w1)" by (cases "issue ?l w")
  have f1: "read_only w w1" using read_only_issue [of ?l w] i by simp
  show ?case
  proof (cases r)
    case (Some e)
    then show ?thesis using i f1 by (simp add: removeEmptyDirectories_in.simps)
  next
    case None
    obtain u w2 where e: "removeEmptyDirectories_each cfg rel items w1 = (u, w2)"
      by (cases "removeEmptyDirectories_each cfg rel items w1")
    have u: "u = items" and f2: "read_only w w2"
      using 1(1) [OF i [symmetric] None 1(2)] e f1 by (auto intro: read_only_trans)
    obtain r3 w3 where j: "issue ?l w2 = (r3, w3)" by (cases "issue ?l w2")
    have f3: "read_only w w3" using read_only_issue [of ?l w2] j f2 by (auto intro: read_only_trans)
    show ?thesis
      using i None e j u f2 f3 1(2)
      by (auto simp: removeEmptyDirectories_in.simps split: option.splits)
  qed
next
  case (2 cfg rel w)
  then show ?case by simp
next
  case (3 cfg rel n sub items w)
  show ?case
  proof (cases "n = ''.'' \<or> n = ''..'' \<or> shouldPreserve (preserve cfg) (rel_join rel n)")
    case True
    then show ?thesis using 3(1) 3(4) by (auto split: prod.splits)
  next
    case False
    obtain a w1 where g: "removeEmptyDirectories_in cfg (rel_join rel n) False sub w = (a, w1)"
      by (cases "removeEmptyDirectories_in cfg (rel_join rel n) False sub w")
    have a: "a = Some sub" and f1: "read_only w w1" using 3(2) [OF False 3(4)] g by auto
    have b: "fst (removeEmptyDirectories_each cfg rel items w1) = items"
      and f2: "read_only w1 (snd (removeEmptyDirectories_each cfg rel items w1))"
      using 3(3) [OF False g [symmetric] 3(4)] by auto
    show ?thesis using False g a b read_only_trans [OF f1 f2] by (auto split: prod.splits)
  qed
next
  case (4 cfg rel n items w)
  then show ?case by (auto split: prod.splits)
next
  case (5 cfg rel n items w)
  then show ?case by (auto split: prod.splits)
qed

lemma removeEmptyDirectories_dry:
  assumes "dry_run cfg"
  shows "remote_untouched w (removeEmptyDirectories cfg w)"
proof -
  obtain a w1 where g: "removeEmptyDirectories_in cfg [] True (tree w) w = (a, w1)"
    by (cases "removeEmptyDirectories_in cfg [] True (tree w) w")
  have "a = Some (tree w)" "read_only w w1"
    using removeEmptyDirectories_in_dry(1) [OF assms, of "[]" True "tree w" w] g by auto
  then show ?thesis
    using g read_only_untouched [of w w1]
    by (auto simp: removeEmptyDirectories_def remote_untouched_def)
qed

lemma fold_untouched:
  assumes "\<And>x s. remote_untouched s (f x s)"
  shows "remote_untouched s (fold f xs s)"
proof (induction xs arbitrary: s)
  case Nil
  then show ?case by simp
next
  case (Cons x xs)
  show ?case using assms [of s x] Cons.IH [of "f x s"] by (auto intro: remote_untouched_trans)
qed

lemma dry_steps_untouched:
  assumes "dry_run cfg"
  shows "remote_untouched s (clearFile cfg f s)"
    "remote_untouched s (processLocalFile cfg lh p s)"
    "remote_untouched s (removeOrphan cfg f s)"
    "remote_untouched s (keepPreserved f s)"
  using assms
  by (auto simp: clearFile_def processLocalFile_def removeOrphan_def keepPreserved_def
      remote_untouched_def split: option.splits)

lemma clearDestination_dry:
  assumes "dry_run cfg"
  shows "remote_untouched s (clearDestination cfg s)"
proof -
  obtain fs s1 where sc: "scanRemote cfg s = (fs, s1)" by (cases "scanRemote cfg s")
  have "read_only s (snd (scanRemote cfg s))" by simp
  then have a: "remote_untouched s s1" unfolding sc by (simp add: read_only_untouched)
  have b: "remote_untouched s1 (fold (clearFile cfg) fs s1)"
    by (rule fold_untouched) (rule dry_steps_untouched(1) [OF assms])
  have c: "remote_untouched (fold (clearFile cfg) fs s1)
      (removeEmptyDirectories cfg (fold (clearFile cfg) fs s1))"
    by (rule removeEmptyDirectories_dry [OF assms])
  show ?thesis
    using sc remote_untouched_trans [OF a remote_untouched_trans [OF b c]]
    by (simp add: clearDestination_def)
qed

lemma uploadPhase_dry:
  assumes "dry_run cfg"
  shows "remote_untouched s (uploadPhase cfg fs s)"
  unfolding uploadPhase_def
  by (rule fold_untouched) (rule dry_steps_untouched(2) [OF assms])

lemma cleanPhase_dry:
  assumes "dry_run cfg"
  shows "remote_untouched s (cleanPhase cfg lh rf s)"
proof -
  let ?s1 = "fold keepPreserved (preservedFiles cfg lh rf) s"
  let ?s2 = "fold (removeOrphan cfg) (filesToRemove cfg lh rf) ?s1"
  have a: "remote_untouched s ?s1"
    by (rule fold_untouched) (rule dry_steps_untouched(4) [OF assms])
  have b: "remote_untouched ?s1 ?s2"
    by (rule fold_untouched) (rule dry_steps_untouched(3) [OF assms])
  have c: "remote_untouched ?s2 (removeEmptyDirectories cfg ?s2)"
    by (rule removeEmptyDirectories_dry [OF assms])
  show ?thesis
    using a remote_untouched_trans [OF a b]
      remote_untouched_trans [OF a remote_untouched_trans [OF b c]]
    by (auto simp: cleanPhase_def Let_def)
qed


lemma scanRemoteIfClean_read_only: "read_only s (snd (scanRemoteIfClean cfg s))"
proof (cases "clean_remote_files cfg \<and> \<not> clear_destination cfg")
  case True
  obtain fs s1 where sc: "scanRemote cfg s = (fs, s1)" by (cases "scanRemote cfg s")
  have "read_only s s1" by (metis scanRemote_read_only sc snd_conv)
  then show ?thesis using True sc by (simp add: scanRemoteIfClean_def)
next
  case False
  then show ?thesis by (auto simp: scanRemoteIfClean_def)
qed

lemma syncFiles_dry:
  assumes "dry_run cfg"
  shows "remote_untouched s (syncFiles cfg lf s)"
proof -
  obtain rf s1 where sc: "scanRemoteIfClean cfg s = (rf, s1)" by (cases "scanRemoteIfClean cfg s")
  have "read_only s s1" by (metis scanRemoteIfClean_read_only sc snd_conv)
  then have u1: "remote_untouched s s1" by (rule read_only_untouched)
  have u2: "remote_untouched s (uploadPhase cfg lf s1)"
    using u1 uploadPhase_dry [OF assms, of s1 lf] by (rule remote_untouched_trans)
  have u3: "remote_untouched s (cleanPhase cfg lh fs (uploadPhase cfg lf s1))" for lh fs
    using u2 cleanPhase_dry [OF assms, of "uploadPhase cfg lf s1" lh fs]
    by (rule remote_untouched_trans)
  show ?thesis
    using sc u2 u3 by (auto simp: syncFiles_def Let_def split: option.splits)
qed

lemma deploy_try_dry:
  assumes "dry_run cfg"
  shows "remote_untouched s (snd (deploy_try cfg scan s))"
proof -
  obtain r1 s1 where a: "client_access s = (r1, s1)" by (cases "client_access s")
  have "read_only s s1" by (metis read_only_client(1) a snd_conv)
  then have u1: "remote_untouched s s1" by (simp add: read_only_untouched)
  define s1' where "s1' = (if clear_destination cfg then clearDestination cfg s1 else s1)"
  have u2: "remote_untouched s s1'"
    using u1 clearDestination_dry [OF assms, of s1]
    by (auto simp: s1'_def intro: remote_untouched_trans)
  obtain hashes s2 where l: "loadRemoteHashes cfg s1' = (hashes, s2)"
    by (cases "loadRemoteHashes cfg s1'")
  have "read_only s1' s2" by (metis loadRemoteHashes_read_only l snd_conv)
  then have u3: "remote_untouched s (s2\<lparr>remoteHashes := hashes\<rparr>)"
    using u2 by (auto simp: remote_untouched_stats dest: read_only_untouched
        intro: remote_untouched_trans)
  have u4: "remote_untouched s (syncFiles cfg lf (s2\<lparr>remoteHashes := hashes\<rparr>))" for lf
    using u3 syncFiles_dry [OF assms, of "s2\<lparr>remoteHashes := hashes\<rparr>" lf]
    by (rule remote_untouched_trans)
  have "deploy_try cfg scan s =
      (case r1 of Inl e \<Rightarrow> (Some e, s1)
       | Inr u \<Rightarrow> (case scan of Inl e \<Rightarrow> (Some e, s2\<lparr>remoteHashes := hashes\<rparr>)
            | Inr lf \<Rightarrow> updateRemoteHashFile cfg (syncFiles cfg lf (s2\<lparr>remoteHashes := hashes\<rparr>))))"
    using a l
    by (cases "clear_destination cfg"; cases r1; cases scan) (simp_all add: deploy_try_def s1'_def)
  then show ?thesis
    using u1 u3 u4 assms by (auto simp: updateRemoteHashFile_def split: sum.splits)
qed

lemma deploy_dry:
  assumes "dry_run cfg"
  shows "remote_untouched w (deploy cfg scan w)"
proof -
  have a: "remote_untouched w (new_deployer w)"
    by (simp add: remote_untouched_def)
  have b: "remote_untouched (new_deployer w) (snd (deploy_try cfg scan (new_deployer w)))"
    by (rule deploy_try_dry [OF assms])
  have c: "remote_untouched s (client_close s)" for s :: deployer
    by (simp add: read_only_untouched)
  have d: "remote_untouched s (client_close (push_error m s))" for s m
    using c [of "push_error m s"] by (simp add: push_error_def remote_untouched_def client_close_def)
  obtain r s1 where t: "deploy_try cfg scan (new_deployer w) = (r, s1)"
    by (cases "deploy_try cfg scan (new_deployer w)")
  have "remote_untouched w s1" using a b t by (auto intro: remote_untouched_trans)
  then show ?thesis
    using t c [of s1] d [of s1]
    by (cases r) (auto simp: deploy_def intro: remote_untouched_trans)
qed


section \<open>Dry run against real run\<close>

lemma simI:
  "uploaded d = uploaded r \<Longrightarrow> removed d = removed r \<Longrightarrow> unchanged d = unchanged r \<Longrightarrow>
   errors d = errors r \<Longrightarrow> remoteHashes d = remoteHashes r \<Longrightarrow> no_faults d \<Longrightarrow> no_faults r \<Longrightarrow>
   tmp_write_error r = None \<Longrightarrow> sim d r"
  by (simp add: sim_def outcome_def)

lemma simD:
  assumes "sim d r"
  shows "uploaded d = uploaded r" "removed d = removed r" "unchanged d = unchanged r"
    "errors d = errors r" "remoteHashes d = remoteHashes r" "no_faults d" "no_faults r"
    "tmp_write_error r = None"
  using assms by (simp_all add: sim_def outcome_def)

lemma sim_frame:
  assumes "sim d r" "frame d d'" "frame r r'"
  shows "sim d' r'"
  using simD [OF assms(1)] frame_deployer [OF assms(2)] frame_deployer [OF assms(3)]
    no_faults_frame [OF assms(2)] no_faults_frame [OF assms(3)]
  by (intro simI) simp_all

lemma read_only_frame: "read_only w w' \<Longrightarrow> frame w w'"
  by (simp add: read_only_def)

lemma sim_fold:
  assumes "\<And>x d r. sim d r \<Longrightarrow> sim (f x d) (g x r)"
  shows "sim d r \<Longrightarrow> sim (fold f xs d) (fold g xs r)"
  by (induction xs arbitrary: d r) (simp_all add: assms)

lemma no_faults_clearFile:
  assumes "no_faults r" "\<not> dry_run cfg"
  shows "clearFile cfg f r = r\<lparr>calls := calls r @ [Remove (remote_path cfg f)],
      tree := tree_remove_file (split_on CHR ''/'' f) (tree r), removed := removed r @ [f]\<rparr>"
  using assms no_faults_ops(3) [OF assms(1), of cfg f] by (simp add: clearFile_def)

lemma sim_clearFile:
  assumes "dry_run cfgD" "\<not> dry_run cfgR" "sim d r"
  shows "sim (clearFile cfgD f d) (clearFile cfgR f r)"
proof -
  note s = simD [OF assms(3)]
  note r = no_faults_clearFile [OF s(7) assms(2), of f]
  show ?thesis
    unfolding r using s assms(1) by (intro simI) (simp_all add: clearFile_def no_faults_def)
qed

lemma no_faults_processLocalFile:
  assumes "no_faults r" "\<not> dry_run cfg"
    "\<not> strict_equals (js_get (remoteHashes r) p) (js_get lh p)"
  shows "uploaded (processLocalFile cfg lh p r) = uploaded r @ [p]"
    "remoteHashes (processLocalFile cfg lh p r) = js_set p (js_get lh p) (remoteHashes r)"
    "removed (processLocalFile cfg lh p r) = removed r"
    "unchanged (processLocalFile cfg lh p r) = unchanged r"
    "errors (processLocalFile cfg lh p r) = errors r"
    "faults (processLocalFile cfg lh p r) = faults r"
    "tmp_write_error (processLocalFile cfg lh p r) = tmp_write_error r"
proof -
  obtain r1 s1 where a: "client_ensureDir cfg p r = (r1, s1)" by (cases "client_ensureDir cfg p r")
  obtain r2 s2 where b: "client_uploadFrom cfg p s1 = (r2, s2)" by (cases "client_uploadFrom cfg p s1")
  have f1: "frame r s1" by (metis frame_client(8) a snd_conv)
  have f2: "frame s1 s2" by (metis frame_client(9) b snd_conv)
  have ok1: "r1 = Inr ()" using no_faults_ops(2) [OF assms(1), of cfg p] a by simp
  have "no_faults s1" using f1 assms(1) by (rule no_faults_frame)
  then have ok2: "r2 = Inr ()" using no_faults_ops(5) [of s1 cfg p] b by simp
  note d = frame_deployer [OF frame_trans [OF f1 f2]]
  show "uploaded (processLocalFile cfg lh p r) = uploaded r @ [p]"
    "remoteHashes (processLocalFile cfg lh p r) = js_set p (js_get lh p) (remoteHashes r)"
    "removed (processLocalFile cfg lh p r) = removed r"
    "unchanged (processLocalFile cfg lh p r) = unchanged r"
    "errors (processLocalFile cfg lh p r) = errors r"
    "faults (processLocalFile cfg lh p r) = faults r"
    "tmp_write_error (processLocalFile cfg lh p r) = tmp_write_error r"
    using assms(2,3) a b ok1 ok2 d by (simp_all add: processLocalFile_def)
qed

lemma sim_processLocalFile:
  assumes "dry_run cfgD" "\<not> dry_run cfgR" "sim d r"
  shows "sim (processLocalFile cfgD lh p d) (processLocalFile cfgR lh p r)"
proof (cases "strict_equals (js_get (remoteHashes r) p) (js_get lh p)")
  case True
  note s = simD [OF assms(3)]
  show ?thesis
    using s True by (intro simI) (simp_all add: processLocalFile_def no_faults_def)
next
  case False
  note s = simD [OF assms(3)]
  note n = no_faults_processLocalFile [OF s(7) assms(2) False]
  show ?thesis
    using s False assms(1) n
    by (intro simI) (simp_all add: processLocalFile_def no_faults_def)
qed

lemma no_faults_removeOrphan:
  assumes "no_faults r" "\<not> dry_run cfg" "1 \<le> default_retries cfg"
  shows "removeOrphan cfg f r = r\<lparr>calls := calls r @ [Remove (remote_path cfg f)],
      tree := tree_remove_file (split_on CHR ''/'' f) (tree r), removed := removed r @ [f],
      remoteHashes := js_delete f (remoteHashes r)\<rparr>"
proof -
  have "executeWithRetry cfg (client_remove cfg f) (default_retries cfg) r = client_remove cfg f r"
    using assms(3) no_faults_ops(3) [OF assms(1), of cfg f]
    by (intro executeWithRetry_first_success [where v = "()"]) simp_all
  then show ?thesis
    using assms(2) no_faults_ops(3) [OF assms(1), of cfg f] by (simp add: removeOrphan_def)
qed

lemma sim_removeOrphan:
  assumes "dry_run cfgD" "\<not> dry_run cfgR" "1 \<le> default_retries cfgR" "sim d r"
  shows "sim (removeOrphan cfgD f d) (removeOrphan cfgR f r)"
proof -
  note s = simD [OF assms(4)]
  note r = no_faults_removeOrphan [OF s(7) assms(2,3), of f]
  show ?thesis
    unfolding r using s assms(1) by (intro simI) (simp_all add: removeOrphan_def no_faults_def)
qed

lemma sim_keepPreserved:
  assumes "sim d r"
  shows "sim (keepPreserved f d) (keepPreserved f r)"
  using simD [OF assms]
  by (intro simI) (simp_all add: keepPreserved_def no_faults_def)

lemma sim_removeEmptyDirectories:
  assumes "sim d r"
  shows "sim (removeEmptyDirectories cfgD d) (removeEmptyDirectories cfgR r)"
  using assms by (rule sim_frame) simp_all


lemma removeEmptyDirectories_in_invariant:
  assumes i: "\<And>c w. P w \<Longrightarrow> P (snd (issue c w))"
  shows "P w \<Longrightarrow> P (snd (removeEmptyDirectories_in cfg rel preserveRoot items w))"
    and "P w \<Longrightarrow> P (snd (removeEmptyDirectories_each cfg rel items w))"
proof (induction cfg rel preserveRoot items w and cfg rel items w
    rule: removeEmptyDirectories_in_removeEmptyDirectories_each.induct)
  case (1 cfg rel preserveRoot items w)
  let ?l = "List (remote_path cfg rel)"
  obtain r w1 where a: "issue ?l w = (r, w1)" by (cases "issue ?l w")
  have p1: "P w1" by (metis i [OF 1(2)] a snd_conv)
  show ?case
  proof (cases r)
    case (Some e)
    then show ?thesis using a p1 by (simp add: removeEmptyDirectories_in.simps)
  next
    case None
    obtain u w2 where e: "removeEmptyDirectories_each cfg rel items w1 = (u, w2)"
      by (cases "removeEmptyDirectories_each cfg rel items w1")
    have p2: "P w2" using 1(1) [OF a [symmetric] None p1] e by simp
    obtain r3 w3 where j: "issue ?l w2 = (r3, w3)" by (cases "issue ?l w2")
    have p3: "P w3" by (metis i [OF p2] j snd_conv)
    let ?d = "RemoveDir (remote_path cfg rel)"
    obtain r4 w4 where k: "issue ?d w3 = (r4, w4)" by (cases "issue ?d w3")
    have p4: "P w4" by (metis i [OF p3] k snd_conv)
    show ?thesis
      using a None e j k p2 p3 p4
      by (auto simp: removeEmptyDirectories_in.simps split: option.splits)
  qed
next
  case (2 cfg rel w)
  then show ?case by simp
next
  case (3 cfg rel n sub items w)
  show ?case
  proof (cases "n = ''.'' \<or> n = ''..'' \<or> shouldPreserve (preserve cfg) (rel_join rel n)")
    case True
    then show ?thesis using 3(1) 3(4) by (auto split: prod.splits)
  next
    case False
    obtain a w1 where g: "removeEmptyDirectories_in cfg (rel_join rel n) False sub w = (a, w1)"
      by (cases "removeEmptyDirectories_in cfg (rel_join rel n) False sub w")
    have p1: "P w1" using 3(2) [OF False 3(4)] g by simp
    have "P (snd (removeEmptyDirectories_each cfg rel items w1))"
      using 3(3) [OF False g [symmetric] p1] by simp
    then show ?thesis using False g by (auto split: prod.splits)
  qed
next
  case (4 cfg rel n items w)
  then show ?case by (auto split: prod.splits)
next
  case (5 cfg rel n items w)
  then show ?case by (auto split: prod.splits)
qed

lemma removeEmptyDirectories_hashfile [simp]:
  "hashfile (removeEmptyDirectories cfg w) = hashfile w"
proof -
  have "hashfile (snd (removeEmptyDirectories_in cfg [] True (tree w) w)) = hashfile w"
    by (rule removeEmptyDirectories_in_invariant(1) [where P = "\<lambda>w'. hashfile w' = hashfile w"])
       (simp_all add: issue_def)
  then show ?thesis
    by (auto simp: removeEmptyDirectories_def split: prod.splits option.splits)
qed

lemma clearFile_hashfile [simp]: "hashfile (clearFile cfg f s) = hashfile s"
  by (simp add: clearFile_def client_defs push_error_def split: option.splits)

lemma fold_clearFile_hashfile [simp]: "hashfile (fold (clearFile cfg) fs s) = hashfile s"
  by (induction fs arbitrary: s) simp_all

lemma read_only_fields:
  assumes "read_only w w'"
  shows "tree w' = tree w" "hashfile w' = hashfile w" "frame w w'"
  using assms by (simp_all add: read_only_def)

lemma clearDestination_hashfile [simp]: "hashfile (clearDestination cfg s) = hashfile s"
proof -
  obtain fs s1 where sc: "scanRemote cfg s = (fs, s1)" by (cases "scanRemote cfg s")
  have "read_only s s1" by (metis scanRemote_read_only sc snd_conv)
  then show ?thesis using sc by (simp add: clearDestination_def read_only_fields)
qed

lemma sim_clearDestination:
  assumes "dry_run cfgD" "\<not> dry_run cfgR" "sim d r" "tree d = tree r"
  shows "sim (clearDestination cfgD d) (clearDestination cfgR r)"
proof -
  note s = simD [OF assms(3)]
  obtain fd d1 where sd: "scanRemote cfgD d = (fd, d1)" by (cases "scanRemote cfgD d")
  obtain fr r1 where sr: "scanRemote cfgR r = (fr, r1)" by (cases "scanRemote cfgR r")
  have "fd = remote_listing [] (tree d)" using scanRemote_no_faults [OF s(6), of cfgD] sd by simp
  moreover have "fr = remote_listing [] (tree r)"
    using scanRemote_no_faults [OF s(7), of cfgR] sr by simp
  ultimately have eq: "fd = fr" using assms(4) by simp
  have "read_only d d1" by (metis scanRemote_read_only sd snd_conv)
  moreover have "read_only r r1" by (metis scanRemote_read_only sr snd_conv)
  ultimately have s1: "sim d1 r1"
    using assms(3) by (auto intro: sim_frame dest: read_only_frame)
  have "sim (fold (clearFile cfgD) fr d1) (fold (clearFile cfgR) fr r1)"
    using s1 by (rule sim_fold [rotated]) (rule sim_clearFile [OF assms(1,2)])
  then show ?thesis
    using sd sr eq by (simp add: clearDestination_def sim_removeEmptyDirectories)
qed

lemma sim_uploadPhase:
  assumes "dry_run cfgD" "\<not> dry_run cfgR" "sim d r"
  shows "sim (uploadPhase cfgD lf d) (uploadPhase cfgR lf r)"
  unfolding uploadPhase_def
  using assms(3) by (rule sim_fold [rotated]) (rule sim_processLocalFile [OF assms(1,2)])

lemma sim_cleanPhase:
  assumes "dry_run cfgD" "\<not> dry_run cfgR" "1 \<le> default_retries cfgR"
    "preserve cfgR = preserve cfgD" "sim d r"
  shows "sim (cleanPhase cfgD lh rf d) (cleanPhase cfgR lh rf r)"
proof -
  have p: "preservedFiles cfgR lh rf = preservedFiles cfgD lh rf"
    "filesToRemove cfgR lh rf = filesToRemove cfgD lh rf"
    using assms(4) by (simp_all add: preservedFiles_def filesToRemove_def)
  let ?P = "preservedFiles cfgD lh rf" and ?R = "filesToRemove cfgD lh rf"
  have a: "sim (fold keepPreserved ?P d) (fold keepPreserved ?P r)"
    using assms(5) by (rule sim_fold [rotated]) (rule sim_keepPreserved)
  have b: "sim (fold (removeOrphan cfgD) ?R (fold keepPreserved ?P d))
               (fold (removeOrphan cfgR) ?R (fold keepPreserved ?P r))"
    using a by (rule sim_fold [rotated]) (rule sim_removeOrphan [OF assms(1,2,3)])
  show ?thesis
    using a b sim_removeEmptyDirectories [OF b, where cfgD = cfgD and cfgR = cfgR]
    by (auto simp: cleanPhase_def Let_def p)
qed


lemma sim_scanRemoteIfClean:
  assumes "sim d r" "tree d = tree r"
    "clean_remote_files cfgR = clean_remote_files cfgD"
    "clear_destination cfgR = clear_destination cfgD"
  shows "fst (scanRemoteIfClean cfgD d) = fst (scanRemoteIfClean cfgR r)
       \<and> sim (snd (scanRemoteIfClean cfgD d)) (snd (scanRemoteIfClean cfgR r))"
proof -
  note s = simD [OF assms(1)]
  have f: "frame d (snd (scanRemoteIfClean cfgD d))" "frame r (snd (scanRemoteIfClean cfgR r))"
    by (simp_all add: scanRemoteIfClean_read_only read_only_frame)
  have "fst (scanRemote cfgD d) = fst (scanRemote cfgR r)"
    using scanRemote_no_faults [OF s(6), of cfgD] scanRemote_no_faults [OF s(7), of cfgR] assms(2)
    by simp
  then have "fst (scanRemoteIfClean cfgD d) = fst (scanRemoteIfClean cfgR r)"
    using assms(3,4) by (auto simp: scanRemoteIfClean_def split: prod.splits)
  then show ?thesis using sim_frame [OF assms(1) f] by simp
qed

lemma sim_syncFiles:
  assumes "dry_run cfgD" "\<not> dry_run cfgR" "1 \<le> default_retries cfgR"
    "preserve cfgR = preserve cfgD"
    "clean_remote_files cfgR = clean_remote_files cfgD"
    "clear_destination cfgR = clear_destination cfgD"
    "sim d r" "tree d = tree r"
  shows "sim (syncFiles cfgD lf d) (syncFiles cfgR lf r)"
proof -
  obtain rf d1 where sd: "scanRemoteIfClean cfgD d = (rf, d1)" by (cases "scanRemoteIfClean cfgD d")
  obtain rf' r1 where sr: "scanRemoteIfClean cfgR r = (rf', r1)" by (cases "scanRemoteIfClean cfgR r")
  have e: "rf' = rf" and s1: "sim d1 r1"
    using sim_scanRemoteIfClean [OF assms(7,8,5,6)] sd sr by simp_all
  have s2: "sim (uploadPhase cfgD lf d1) (uploadPhase cfgR lf r1)"
    using assms(1,2) s1 by (rule sim_uploadPhase)
  have s3: "sim (cleanPhase cfgD lh fs (uploadPhase cfgD lf d1))
                (cleanPhase cfgR lh fs (uploadPhase cfgR lf r1))" for lh fs
    using assms(1,2,3,4) s2 by (rule sim_cleanPhase)
  show ?thesis
    using sd sr e s2 s3 assms(5,6) by (auto simp: syncFiles_def Let_def split: option.splits)
qed

lemma sim_updateRemoteHashFile:
  assumes "dry_run cfgD" "\<not> dry_run cfgR" "1 \<le> default_retries cfgR" "sim d r"
  shows "fst (updateRemoteHashFile cfgD d) = fst (updateRemoteHashFile cfgR r)
       \<and> sim (snd (updateRemoteHashFile cfgD d)) (snd (updateRemoteHashFile cfgR r))"
proof -
  note s = simD [OF assms(4)]
  note sv = saveRemoteHashes_no_faults [OF s(7) assms(3) s(8), of "remoteHashes r"]
  show ?thesis
    using assms(1,2) s
    by (auto simp: updateRemoteHashFile_def sv intro!: simI simp: no_faults_def)
qed

lemma sim_deploy_try:
  assumes "dry_run cfgD" "\<not> dry_run cfgR" "1 \<le> default_retries cfgR"
    "default_retries cfgD = default_retries cfgR"
    "preserve cfgR = preserve cfgD"
    "clean_remote_files cfgR = clean_remote_files cfgD"
    "clear_destination cfgR = clear_destination cfgD"
    "sim d r" "tree d = tree r" "hashfile d = hashfile r"
  shows "fst (deploy_try cfgD scan d) = fst (deploy_try cfgR scan r)
       \<and> sim (snd (deploy_try cfgD scan d)) (snd (deploy_try cfgR scan r))"
proof -
  note s = simD [OF assms(8)]
  let ?d1 = "d\<lparr>calls := calls d @ [Access], connected := True\<rparr>"
  let ?r1 = "r\<lparr>calls := calls r @ [Access], connected := True\<rparr>"
  have ad: "client_access d = (Inr (), ?d1)" and ar: "client_access r = (Inr (), ?r1)"
    using no_faults_ops(1) [OF s(6)] no_faults_ops(1) [OF s(7)] by simp_all
  have s1: "sim ?d1 ?r1" using s by (intro simI) (simp_all add: no_faults_def)
  define d1' where "d1' = (if clear_destination cfgD then clearDestination cfgD ?d1 else ?d1)"
  define r1' where "r1' = (if clear_destination cfgR then clearDestination cfgR ?r1 else ?r1)"
  have s1': "sim d1' r1'"
    using s1 sim_clearDestination [OF assms(1,2) s1] assms(7,9) by (simp add: d1'_def r1'_def)
  have h1': "hashfile d1' = hashfile r1'" using assms(10) by (simp add: d1'_def r1'_def)
  have t1': "\<not> clear_destination cfgD \<Longrightarrow> tree d1' = tree r1'"
    using assms(7,9) by (simp add: d1'_def r1'_def)
  obtain hd d2 where ld: "loadRemoteHashes cfgD d1' = (hd, d2)" by (cases "loadRemoteHashes cfgD d1'")
  obtain hr r2 where lr: "loadRemoteHashes cfgR r1' = (hr, r2)" by (cases "loadRemoteHashes cfgR r1'")
  note s' = simD [OF s1']
  have "hd = stored_manifest d1'"
    using loadRemoteHashes_no_faults [OF s'(6), of cfgD] assms(3,4) ld by simp
  moreover have "hr = stored_manifest r1'"
    using loadRemoteHashes_no_faults [OF s'(7) assms(3)] lr by simp
  ultimately have he: "hd = hr" using h1' by (simp add: stored_manifest_def)
  have rod: "read_only d1' d2" by (metis loadRemoteHashes_read_only ld snd_conv)
  have ror: "read_only r1' r2" by (metis loadRemoteHashes_read_only lr snd_conv)
  have s2: "sim d2 r2"
    using s1' read_only_frame [OF rod] read_only_frame [OF ror] by (rule sim_frame)
  have s3: "sim (d2\<lparr>remoteHashes := hr\<rparr>) (r2\<lparr>remoteHashes := hr\<rparr>)"
    using simD [OF s2] by (intro simI) (simp_all add: no_faults_def)
  have t3: "\<not> clear_destination cfgD \<Longrightarrow>
      tree (d2\<lparr>remoteHashes := hr\<rparr>) = tree (r2\<lparr>remoteHashes := hr\<rparr>)"
    using t1' read_only_fields(1) [OF rod] read_only_fields(1) [OF ror] by simp
  have dd: "deploy_try cfgD scan d =
      (case scan of Inl e \<Rightarrow> (Some e, d2\<lparr>remoteHashes := hr\<rparr>)
       | Inr lf \<Rightarrow> updateRemoteHashFile cfgD (syncFiles cfgD lf (d2\<lparr>remoteHashes := hr\<rparr>)))"
    using ad ld he by (cases scan) (simp_all add: deploy_try_def d1'_def)
  have dr: "deploy_try cfgR scan r =
      (case scan of Inl e \<Rightarrow> (Some e, r2\<lparr>remoteHashes := hr\<rparr>)
       | Inr lf \<Rightarrow> updateRemoteHashFile cfgR (syncFiles cfgR lf (r2\<lparr>remoteHashes := hr\<rparr>)))"
    using ar lr by (cases scan) (simp_all add: deploy_try_def r1'_def)
  show ?thesis
  proof (cases scan)
    case (Inl e)
    then show ?thesis using dd dr s3 by simp
  next
    case (Inr lf)
    have sy: "sim (syncFiles cfgD lf (d2\<lparr>remoteHashes := hr\<rparr>))
                  (syncFiles cfgR lf (r2\<lparr>remoteHashes := hr\<rparr>))"
    proof (cases "clear_destination cfgD")
      case False
      show ?thesis
        using assms(1,2,3,5,6,7) s3 t3 [OF False] by (rule sim_syncFiles)
    next
      case True
      obtain rf d3 where sd: "scanRemoteIfClean cfgD (d2\<lparr>remoteHashes := hr\<rparr>) = (rf, d3)"
        by (cases "scanRemoteIfClean cfgD (d2\<lparr>remoteHashes := hr\<rparr>)")
      have n: "scanRemoteIfClean cfgD (d2\<lparr>remoteHashes := hr\<rparr>) = (None, d2\<lparr>remoteHashes := hr\<rparr>)"
        "scanRemoteIfClean cfgR (r2\<lparr>remoteHashes := hr\<rparr>) = (None, r2\<lparr>remoteHashes := hr\<rparr>)"
        using True assms(7) by (simp_all add: scanRemoteIfClean_def)
      show ?thesis
        using n sim_uploadPhase [OF assms(1,2) s3] by (simp add: syncFiles_def)
    qed
    show ?thesis
      using Inr dd dr sim_updateRemoteHashFile [OF assms(1,2,3) sy] by simp
  qed
qed

lemma sim_deploy:
  assumes "dry_run cfg" "0 \<le> max_retries cfg" "no_faults w" "tmp_write_error w = None"
  shows "outcome (deploy cfg scan w) = outcome (deploy (cfg\<lparr>dry_run := False\<rparr>) scan w)"
proof -
  let ?r = "cfg\<lparr>dry_run := False\<rparr>"
  have s0: "sim (new_deployer w) (new_deployer w)"
    using assms(3,4) by (intro simI) (simp_all add: no_faults_def)
  have r: "1 \<le> default_retries ?r" "default_retries cfg = default_retries ?r"
    using assms(2) by (simp_all add: default_retries_def)
  obtain ed d where td: "deploy_try cfg scan (new_deployer w) = (ed, d)"
    by (cases "deploy_try cfg scan (new_deployer w)")
  obtain er r' where tr: "deploy_try ?r scan (new_deployer w) = (er, r')"
    by (cases "deploy_try ?r scan (new_deployer w)")
  have "ed = er" "sim d r'"
    using sim_deploy_try [OF assms(1) _ r(1) r(2) _ _ _ s0, of scan] td tr by simp_all
  then show ?thesis
    using td tr
    by (cases er)
       (simp_all add: deploy_def sim_def outcome_def client_close_def push_error_def)
qed

text \<open>
  C6. With \<^verbatim>\<open>dry_run\<close> set, whatever fails and whatever the other options are,
  \<^verbatim>\<open>deploy\<close> leaves the remote files and the manifest file as they were, and every
  transport call it issues is one that changes nothing (no upload, no file or
  directory removal, no directory creation). And when no operation of the real run
  fails (no transport call raises, the staging file can be written, \<^verbatim>\<open>max_retries\<close> is
  not negative), the dry run returns the statistics of the real run with
  \<^verbatim>\<open>dry_run\<close> off, and ends with the same manifest in memory.
\<close>

theorem dry_run_changes_nothing:
  assumes "dry_run cfg"
  shows "tree (deploy cfg scan w) = tree w \<and> hashfile (deploy cfg scan w) = hashfile w
       \<and> take (length (calls w)) (calls (deploy cfg scan w)) = calls w
       \<and> list_all (\<lambda>c. \<not> mutating c) (drop (length (calls w)) (calls (deploy cfg scan w)))
       \<and> (0 \<le> max_retries cfg \<and> no_faults w \<and> tmp_write_error w = None \<longrightarrow>
            outcome (deploy cfg scan w) = outcome (deploy (cfg\<lparr>dry_run := False\<rparr>) scan w))"
proof -
  have "remote_untouched w (deploy cfg scan w)" by (rule deploy_dry [OF assms])
  then have "tree (deploy cfg scan w) = tree w \<and> hashfile (deploy cfg scan w) = hashfile w
       \<and> take (length (calls w)) (calls (deploy cfg scan w)) = calls w
       \<and> list_all (\<lambda>c. \<not> mutating c) (drop (length (calls w)) (calls (deploy cfg scan w)))"
    by (auto simp: remote_untouched_def)
  then show ?thesis using sim_deploy [OF assms, of w scan] by blast
qed

theorem dry_run_changes_nothing_witness:
  "dry_run dry_config \<and> 0 \<le> max_retries dry_config \<and> no_faults sample_world
   \<and> tmp_write_error sample_world = None
   \<and> tree (deploy dry_config (Inr [(''a.txt'', ''h1''), (''b/c.txt'', ''h3'')]) sample_world)
       = tree sample_world
   \<and> hashfile (deploy dry_config (Inr [(''a.txt'', ''h1''), (''b/c.txt'', ''h3'')]) sample_world)
       = hashfile sample_world
   \<and> list_all (\<lambda>c. \<not> mutating c)
        (calls (deploy dry_config (Inr [(''a.txt'', ''h1''), (''b/c.txt'', ''h3'')]) sample_world))
   \<and> outcome (deploy dry_config (Inr [(''a.txt'', ''h1''), (''b/c.txt'', ''h3'')]) sample_world)
       = outcome (deploy (dry_config\<lparr>dry_run := False\<rparr>)
                    (Inr [(''a.txt'', ''h1''), (''b/c.txt'', ''h3'')]) sample_world)"
proof -
  have d: "dry_run dry_config" and m: "0 \<le> max_retries dry_config"
    by (simp_all add: dry_config_def plain_config_def)
  have n: "no_faults sample_world" and t: "tmp_write_error sample_world = None"
    and c: "calls sample_world = []"
    by (simp_all add: no_faults_def sample_world_def)
  show ?thesis
    using d m n t
      dry_run_changes_nothing [OF d, of "Inr [(''a.txt'', ''h1''), (''b/c.txt'', ''h3'')]" sample_world]
    by (simp add: c)
qed


section \<open>Clear-destination\<close>

lemma clearing_dry_outcome:
  "outcome (deploy (clearing_config\<lparr>dry_run := True\<rparr>) (Inr [(''a.txt'', ''h1'')]) sample_world)
   = ([], [''a.txt'', ''old.txt'', ''sub/x.bin''], [''a.txt''], [],
      [(''a.txt'', Str ''h1''), (''old.txt'', Str ''h2'')])"
  by (simp add: outcome_def clearing_config_def sample_world_def plain_config_def deploy_defs
      client_defs rel_join_def HASH_FILE_NAME_def Let_def)

text \<open>
  C1 at a concrete input. The server holds \<^verbatim>\<open>a.txt\<close>, \<^verbatim>\<open>old.txt\<close> and \<^verbatim>\<open>sub/x.bin\<close>, its
  manifest says \<^verbatim>\<open>a.txt\<close> has digest \<^verbatim>\<open>h1\<close>, the local tree is \<^verbatim>\<open>a.txt\<close> with digest
  \<^verbatim>\<open>h1\<close>, and no transport call fails. With clear-destination the run removes the
  three remote files, then loads the manifest, which the clearing left in place, finds
  \<^verbatim>\<open>a.txt\<close> unchanged and uploads nothing.
\<close>

theorem clear_destination_skips_unchanged_files:
  "clear_destination clearing_config \<and> \<not> dry_run clearing_config
   \<and> no_faults sample_world
   \<and> stored_manifest sample_world = [(''a.txt'', Str ''h1''), (''old.txt'', Str ''h2'')]
   \<and> removed (deploy clearing_config (Inr [(''a.txt'', ''h1'')]) sample_world)
       = [''a.txt'', ''old.txt'', ''sub/x.bin'']
   \<and> uploaded (deploy clearing_config (Inr [(''a.txt'', ''h1'')]) sample_world) = []
   \<and> unchanged (deploy clearing_config (Inr [(''a.txt'', ''h1'')]) sample_world) = [''a.txt'']
   \<and> errors (deploy clearing_config (Inr [(''a.txt'', ''h1'')]) sample_world) = []"
proof -
  have c: "clearing_config\<lparr>dry_run := True, dry_run := False\<rparr> = clearing_config"
    by (simp add: clearing_config_def plain_config_def)
  have "outcome (deploy clearing_config (Inr [(''a.txt'', ''h1'')]) sample_world)
      = ([], [''a.txt'', ''old.txt'', ''sub/x.bin''], [''a.txt''], [],
         [(''a.txt'', Str ''h1''), (''old.txt'', Str ''h2'')])"
    using sim_deploy [of "clearing_config\<lparr>dry_run := True\<rparr>" sample_world
        "Inr [(''a.txt'', ''h1'')]"] clearing_dry_outcome
    by (simp add: c)
       (simp add: clearing_config_def plain_config_def no_faults_def sample_world_def)
  then show ?thesis
    by (simp add: outcome_def)
       (simp add: clearing_config_def plain_config_def no_faults_def sample_world_def
          stored_manifest_def js_set_def)
qed


section \<open>Clean mode\<close>

lemma clean_dry_outcome:
  "outcome (deploy (clean_config\<lparr>dry_run := True\<rparr>) (Inr [(''a.txt'', ''h1'')]) builtin_name_world)
   = ([''a.txt''], [''old.txt''], [], [], [(''a.txt'', Str ''h1'')])"
  by (simp add: outcome_def clean_config_def builtin_name_world_def quiet_world_def plain_config_def
      deploy_defs client_defs rel_join_def HASH_FILE_NAME_def Let_def)

text \<open>
  C5 at a concrete input. Clean mode is on, clear-destination off, nothing is preserved
  and no transport call fails. The server holds \<^verbatim>\<open>a.txt\<close>, \<^verbatim>\<open>constructor\<close> and
  \<^verbatim>\<open>old.txt\<close>; the local tree is \<^verbatim>\<open>a.txt\<close> alone. The remote listing minus the local
  paths is \<^verbatim>\<open>constructor\<close> and \<^verbatim>\<open>old.txt\<close>, but the test \<^verbatim>\<open>!localHashes[remotePath]\<close>
  finds the member \<^verbatim>\<open>constructor\<close> that every object inherits, so the orphans of the run
  are \<^verbatim>\<open>old.txt\<close> alone, and \<^verbatim>\<open>constructor\<close> is neither removed nor reported.
\<close>

theorem clean_mode_keeps_orphan_named_constructor:
  "clean_remote_files clean_config \<and> \<not> clear_destination clean_config
   \<and> \<not> dry_run clean_config \<and> preserve clean_config = []
   \<and> no_faults builtin_name_world
   \<and> fst (scanRemote clean_config builtin_name_world) = [''a.txt'', ''constructor'', ''old.txt'']
   \<and> map fst [(''a.txt'', ''h1'')] = [''a.txt'']
   \<and> orphanedFiles (make_localHashes [(''a.txt'', ''h1'')]) [''a.txt'', ''constructor'', ''old.txt'']
       = [''old.txt'']
   \<and> filesToRemove clean_config (make_localHashes [(''a.txt'', ''h1'')])
        [''a.txt'', ''constructor'', ''old.txt''] = [''old.txt'']
   \<and> removed (deploy clean_config (Inr [(''a.txt'', ''h1'')]) builtin_name_world) = [''old.txt'']
   \<and> uploaded (deploy clean_config (Inr [(''a.txt'', ''h1'')]) builtin_name_world) = [''a.txt'']
   \<and> errors (deploy clean_config (Inr [(''a.txt'', ''h1'')]) builtin_name_world) = []"
proof -
  have c: "clean_config\<lparr>dry_run := True, dry_run := False\<rparr> = clean_config"
    by (simp add: clean_config_def plain_config_def)
  have n: "no_faults builtin_name_world"
    by (simp add: no_faults_def builtin_name_world_def quiet_world_def)
  have l: "fst (scanRemote clean_config builtin_name_world) = [''a.txt'', ''constructor'', ''old.txt'']"
    using scanRemote_no_faults [OF n, of clean_config]
    by (simp add: builtin_name_world_def quiet_world_def rel_join_def HASH_FILE_NAME_def)
  have o: "orphanedFiles (make_localHashes [(''a.txt'', ''h1'')]) [''a.txt'', ''constructor'', ''old.txt'']
       = [''old.txt'']"
    by (simp add: orphanedFiles_def make_localHashes_def js_get_def js_set_def
        object_prototype_names_def)
  have f: "filesToRemove clean_config (make_localHashes [(''a.txt'', ''h1'')])
        [''a.txt'', ''constructor'', ''old.txt''] = [''old.txt'']"
    by (simp add: filesToRemove_def o) (simp add: clean_config_def plain_config_def shouldPreserve_def)
  have "outcome (deploy clean_config (Inr [(''a.txt'', ''h1'')]) builtin_name_world)
      = ([''a.txt''], [''old.txt''], [], [], [(''a.txt'', Str ''h1'')])"
    using sim_deploy [of "clean_config\<lparr>dry_run := True\<rparr>" builtin_name_world
        "Inr [(''a.txt'', ''h1'')]"] clean_dry_outcome
    by (simp add: c)
       (simp add: clean_config_def plain_config_def no_faults_def builtin_name_world_def
          quiet_world_def)
  then show ?thesis
    using n l o f
    by (simp add: outcome_def) (simp add: clean_config_def plain_config_def)
qed


end
